theory Spec2Isabelle
  imports
    Complex_Main
    "HOL-Library.Word"
    "HOL-Library.Char_ord"
    "HOL-Library.List_Lexorder"
    "HOL-Library.Multiset"
begin

section \<open>The BLE metadata sniffer \<^verbatim>\<open>Snnifer_blt.py\<close>\<close>

text \<open>
  A shallow embedding of \<^verbatim>\<open>src/Snnifer_blt.py\<close>: the record formatters, the CSV sink
  \<^verbatim>\<open>CsvWriter\<close>, the detection callback \<^verbatim>\<open>on_detect\<close> and the scan lifecycle of
  \<^verbatim>\<open>scan_ble\<close> and \<^verbatim>\<open>main\<close>.

  Python strings are \<^typ>\<open>string\<close> (their UTF-8 bytes; the byte-wise lexicographic order
  of \<^theory_text>\<open>List_Lexorder\<close> over \<^theory_text>\<open>Char_ord\<close> is the code-point order of Python's
  \<^verbatim>\<open>str\<close> comparison), \<^verbatim>\<open>bytes\<close> are lists of 8-bit words, Python integers are
  \<^typ>\<open>int\<close>, \<^verbatim>\<open>Optional[T]\<close> is \<^typ>\<open>'a option\<close>, and a \<^verbatim>\<open>dict\<close> whose iteration
  order is observed is an association list in that order.
\<close>

subsection \<open>Python built-ins used by the program\<close>

datatype py_error = TypeError | ValueError | OSError | CancelledError | BleakError

type_synonym bytes = "8 word list"

text \<open>\<^verbatim>\<open>sep.join(parts)\<close>.\<close>

fun join :: "string \<Rightarrow> string list \<Rightarrow> string" where
  "join sep [] = []"
| "join sep [x] = x"
| "join sep (x # y # ys) = x @ sep @ join sep (y # ys)"

text \<open>The lower-case digit of a value below 16, as \<^verbatim>\<open>format(n, 'x')\<close> and \<^verbatim>\<open>bytes.hex\<close> print it.\<close>

definition hex_digit :: "nat \<Rightarrow> char" where
  "hex_digit n = ''0123456789abcdef'' ! (n mod 16)"

text \<open>\<^verbatim>\<open>format(n, 'x')\<close> for \<open>n \<ge> 0\<close>: the hexadecimal digits, most significant first, no padding.\<close>

fun hex_digits :: "nat \<Rightarrow> string" where
  "hex_digits n = (if n < 16 then [hex_digit n] else hex_digits (n div 16) @ [hex_digit (n mod 16)])"

declare hex_digits.simps [simp del]

text \<open>\<^verbatim>\<open>str(n)\<close> for \<open>n \<ge> 0\<close>: the decimal digits.\<close>

definition dec_digit :: "nat \<Rightarrow> char" where
  "dec_digit n = ''0123456789'' ! (n mod 10)"

fun dec_digits :: "nat \<Rightarrow> string" where
  "dec_digits n = (if n < 10 then [dec_digit n] else dec_digits (n div 10) @ [dec_digit (n mod 10)])"

declare dec_digits.simps [simp del]

text \<open>\<^verbatim>\<open>str(i)\<close> for a Python integer.\<close>

definition str_int :: "int \<Rightarrow> string" where
  "str_int i = (if i < 0 then CHR ''-'' # dec_digits (nat (- i)) else dec_digits (nat i))"

text \<open>
  The format specifications \<^verbatim>\<open><w\<close> and \<^verbatim>\<open>>w\<close>: pad with spaces on the right
  (respectively on the left) up to the minimum width; a longer string is not truncated.
\<close>

definition ljust :: "nat \<Rightarrow> string \<Rightarrow> string" where
  "ljust w s = s @ replicate (w - length s) CHR '' ''"

definition rjust :: "nat \<Rightarrow> string \<Rightarrow> string" where
  "rjust w s = replicate (w - length s) CHR '' '' @ s"

text \<open>
  The format specification \<^verbatim>\<open>#06x\<close> on an integer: sign, the prefix \<^verbatim>\<open>0x\<close>, then the
  hexadecimal digits padded with zeros after the prefix so that the whole field has at
  least 6 characters.
\<close>

definition format_06x :: "int \<Rightarrow> string" where
  "format_06x i =
     (let sign = (if i < 0 then ''-'' else '''');
          ds = hex_digits (nat \<bar>i\<bar>);
          used = length sign + 2 + length ds
      in sign @ ''0x'' @ replicate (6 - used) CHR ''0'' @ ds)"

text \<open>\<^verbatim>\<open>payload.hex()\<close>: two lower-case hexadecimal digits per byte.\<close>

definition bytes_hex :: "bytes \<Rightarrow> string" where
  "bytes_hex payload = concat (map (\<lambda>b. [hex_digit (unat b div 16), hex_digit (unat b mod 16)]) payload)"

text \<open>
  \<^verbatim>\<open>s.lower()\<close> applies the Unicode case mapping, a table of the Python runtime that is
  not part of the program. The handler therefore takes the function as a parameter
  \<open>lw\<close>, and what is proved of it holds for every such function. On strings of ASCII
  characters \<^verbatim>\<open>str.lower\<close> is \<open>ascii_lower\<close>: it maps the 26 capital letters and
  leaves every other character as it is.
\<close>

definition lower_char :: "char \<Rightarrow> char" where
  "lower_char c =
     (case map_of (zip ''ABCDEFGHIJKLMNOPQRSTUVWXYZ'' ''abcdefghijklmnopqrstuvwxyz'') c of
        None \<Rightarrow> c
      | Some l \<Rightarrow> l)"

definition ascii_lower :: "string \<Rightarrow> string" where
  "ascii_lower s = map lower_char s"

definition is_ascii :: "char \<Rightarrow> bool" where
  "is_ascii c = (of_char c < (128 :: nat))"

text \<open>
  \<^verbatim>\<open>needle in hay\<close> on strings: \<open>needle\<close> occurs as a contiguous substring. On UTF-8
  an occurrence byte by byte is an occurrence code point by code point, since no encoded
  character begins inside another.
\<close>

fun starts_with :: "string \<Rightarrow> string \<Rightarrow> bool" where
  "starts_with [] hay = True"
| "starts_with (n # ns) [] = False"
| "starts_with (n # ns) (h # hs) = (n = h \<and> starts_with ns hs)"

fun str_in :: "string \<Rightarrow> string \<Rightarrow> bool" where
  "str_in needle [] = (needle = [])"
| "str_in needle (h # hs) = (starts_with needle (h # hs) \<or> str_in needle hs)"

text \<open>\<^verbatim>\<open>a or b\<close> on optional strings: \<open>a\<close> when it is truthy (neither \<^verbatim>\<open>None\<close> nor empty).\<close>

definition str_or :: "string option \<Rightarrow> string option \<Rightarrow> string option" where
  "str_or a b = (case a of None \<Rightarrow> b | Some s \<Rightarrow> if s = [] then b else Some s)"

text \<open>\<^verbatim>\<open>a or ''lit''\<close> where the right operand is a string literal.\<close>

definition str_or_lit :: "string option \<Rightarrow> string \<Rightarrow> string" where
  "str_or_lit a d = (case a of None \<Rightarrow> d | Some s \<Rightarrow> if s = [] then d else s)"

subsection \<open>Record formatters\<close>

text \<open>
  \<^verbatim>\<open>_fmt_manu_data(manu)\<close>, lines 50-56. The dictionary is the list of its items in
  iteration order; \<^verbatim>\<open>not manu\<close> holds for \<^verbatim>\<open>None\<close> and for the empty dictionary.
\<close>

definition fmt_manu_entry :: "int \<times> bytes \<Rightarrow> string" where
  "fmt_manu_entry e = format_06x (fst e) @ '':'' @ bytes_hex (snd e)"

definition fmt_manu_data :: "(int \<times> bytes) list option \<Rightarrow> string" where
  "fmt_manu_data manu =
     (case manu of
        None \<Rightarrow> ''-''
      | Some items \<Rightarrow> if items = [] then ''-'' else join '','' (map fmt_manu_entry items))"

text \<open>
  \<^verbatim>\<open>_fmt_services(uuids)\<close>, lines 59-62. \<^verbatim>\<open>sorted\<close> on strings is the sort by the
  lexicographic order.
\<close>

definition fmt_services :: "string list option \<Rightarrow> string" where
  "fmt_services uuids =
     (case uuids of
        None \<Rightarrow> ''-''
      | Some us \<Rightarrow> if us = [] then ''-'' else join '','' (sort us))"

subsection \<open>The world outside the program\<close>

text \<open>
  The file system, the open file objects, the console and the discovery primitive are
  what the program acts on. A CSV file is the list of the rows written to it by
  \<^verbatim>\<open>csv.writer.writerow\<close>, one row per line; a cell is a string or an integer (which
  \<^verbatim>\<open>csv\<close> prints with \<^verbatim>\<open>str\<close>). A file object is a number: its index in \<open>handles\<close>,
  which records the path it was opened on and whether it is still open. The order of
  the calls on file objects and on the scanner is kept in \<open>trace\<close>.
\<close>

datatype csv_cell = CStr string | CInt int

type_synonym csv_row = "csv_cell list"

datatype action = FileOpened nat string | FileClosed nat | ScannerStarted | ScannerStopped

record world =
  files :: "string \<rightharpoonup> csv_row list"
  writable :: "string \<Rightarrow> bool"
  handles :: "(string \<times> bool) list"
  console :: "string list"
  trace :: "action list"

definition file_rows :: "world \<Rightarrow> string \<Rightarrow> csv_row list" where
  "file_rows w p = (case files w p of None \<Rightarrow> [] | Some rows \<Rightarrow> rows)"

text \<open>
  \<^verbatim>\<open>open(path, "a", newline="", encoding="utf-8")\<close>: raises \<^verbatim>\<open>OSError\<close> when the path
  cannot be opened for writing, creates the file when it does not exist, and returns a
  new file object positioned at the end.
\<close>

definition file_open_append :: "string \<Rightarrow> world \<Rightarrow> py_error + (nat \<times> world)" where
  "file_open_append p w =
     (if \<not> writable w p then Inl OSError
      else Inr (length (handles w),
                w\<lparr>files := (files w)(p \<mapsto> file_rows w p),
                  handles := handles w @ [(p, True)],
                  trace := trace w @ [FileOpened (length (handles w)) p]\<rparr>))"

text \<open>
  \<^verbatim>\<open>fh.tell()\<close> on a file object opened for append and not yet written through: the size
  of the file, counted here in rows. Every row has at least its line terminator, so the
  position is 0 exactly when the file has no row.
\<close>

definition file_tell :: "nat \<Rightarrow> world \<Rightarrow> nat" where
  "file_tell h w = (if h < length (handles w) then length (file_rows w (fst (handles w ! h))) else 0)"

text \<open>
  \<^verbatim>\<open>writer.writerow(row)\<close> on a \<^verbatim>\<open>csv.writer\<close> over file object \<open>h\<close>: appends the row;
  on a closed file object it raises \<^verbatim>\<open>ValueError\<close>.
\<close>

definition writerow :: "nat \<Rightarrow> csv_row \<Rightarrow> world \<Rightarrow> py_error + world" where
  "writerow h row w =
     (if h < length (handles w) \<and> snd (handles w ! h)
      then Inr (w\<lparr>files := (files w)(fst (handles w ! h) \<mapsto> file_rows w (fst (handles w ! h)) @ [row])\<rparr>)
      else Inl ValueError)"

text \<open>\<^verbatim>\<open>fh.close()\<close>.\<close>

definition file_close :: "nat \<Rightarrow> world \<Rightarrow> world" where
  "file_close h w =
     (if h < length (handles w)
      then w\<lparr>handles := (handles w)[h := (fst (handles w ! h), False)],
             trace := trace w @ [FileClosed h]\<rparr>
      else w)"

subsection \<open>The log sink \<^verbatim>\<open>CsvWriter\<close>\<close>

text \<open>
  The three attributes of the class, lines 66-69: \<^verbatim>\<open>_path\<close>, \<^verbatim>\<open>_fh\<close> (the file object)
  and \<^verbatim>\<open>_writer\<close> (the \<^verbatim>\<open>csv.writer\<close>, identified with the file object it writes to).
\<close>

record CsvWriter =
  cw_path :: "string option"
  cw_fh :: "nat option"
  cw_writer :: "nat option"

definition CsvWriter_init :: "string option \<Rightarrow> CsvWriter" where
  "CsvWriter_init p = \<lparr>cw_path = p, cw_fh = None, cw_writer = None\<rparr>"

definition header_row :: csv_row where
  "header_row = [CStr ''timestamp'', CStr ''address'', CStr ''name'', CStr ''rssi'',
                 CStr ''tx_power'', CStr ''manufacturer_data'', CStr ''service_uuids'']"

text \<open>
  \<^verbatim>\<open>CsvWriter.open\<close>, lines 71-88. \<^verbatim>\<open>not self._path\<close> holds for \<^verbatim>\<open>None\<close> and for the
  empty string.
\<close>

definition CsvWriter_open :: "CsvWriter \<Rightarrow> world \<Rightarrow> py_error + (CsvWriter \<times> world)" where
  "CsvWriter_open c w =
     (case cw_path c of
        None \<Rightarrow> Inr (c, w)
      | Some p \<Rightarrow>
          if p = [] then Inr (c, w)
          else (case file_open_append p w of
                  Inl e \<Rightarrow> Inl e
                | Inr (h, w1) \<Rightarrow>
                    if file_tell h w1 = 0
                    then (case writerow h header_row w1 of
                            Inl e \<Rightarrow> Inl e
                          | Inr w2 \<Rightarrow> Inr (c\<lparr>cw_fh := Some h, cw_writer := Some h\<rparr>, w2))
                    else Inr (c\<lparr>cw_fh := Some h, cw_writer := Some h\<rparr>, w1)))"

text \<open>The row that \<^verbatim>\<open>CsvWriter.write\<close> builds, lines 103-111.\<close>

definition csv_record ::
  "string \<Rightarrow> string \<Rightarrow> string option \<Rightarrow> int option \<Rightarrow> int option \<Rightarrow>
   (int \<times> bytes) list option \<Rightarrow> string list option \<Rightarrow> csv_row" where
  "csv_record timestamp address name rssi tx_power manufacturer_data service_uuids =
     [CStr timestamp,
      CStr address,
      CStr (str_or_lit name []),
      (case rssi of Some r \<Rightarrow> CInt r | None \<Rightarrow> CStr []),
      (case tx_power of Some t \<Rightarrow> CInt t | None \<Rightarrow> CStr []),
      CStr (fmt_manu_data manufacturer_data),
      CStr (fmt_services service_uuids)]"

text \<open>\<^verbatim>\<open>CsvWriter.write\<close>, lines 90-112.\<close>

definition CsvWriter_write ::
  "CsvWriter \<Rightarrow> string \<Rightarrow> string \<Rightarrow> string option \<Rightarrow> int option \<Rightarrow> int option \<Rightarrow>
   (int \<times> bytes) list option \<Rightarrow> string list option \<Rightarrow> world \<Rightarrow> py_error + world" where
  "CsvWriter_write c timestamp address name rssi tx_power manufacturer_data service_uuids w =
     (case cw_writer c of
        None \<Rightarrow> Inr w
      | Some h \<Rightarrow>
          writerow h (csv_record timestamp address name rssi tx_power manufacturer_data service_uuids) w)"

text \<open>\<^verbatim>\<open>CsvWriter.close\<close>, lines 114-118.\<close>

definition CsvWriter_close :: "CsvWriter \<Rightarrow> world \<Rightarrow> CsvWriter \<times> world" where
  "CsvWriter_close c w =
     (case cw_fh c of
        None \<Rightarrow> (c, w)
      | Some h \<Rightarrow> (c\<lparr>cw_fh := None, cw_writer := None\<rparr>, file_close h w))"

subsection \<open>Advertisement events\<close>

text \<open>
  The two arguments of the detection callback. An attribute that \<^verbatim>\<open>getattr\<close> reads with
  a default is optional: \<open>None\<close> when the object has no such attribute or holds \<^verbatim>\<open>None\<close>.
\<close>

record device =
  dev_address :: "string option"
  dev_mac_address :: "string option"
  dev_name :: "string option"
  dev_rssi :: "int option"

record advertisement =
  adv_local_name :: "string option"
  adv_rssi :: "int option"
  adv_tx_power :: "int option"
  adv_manufacturer_data :: "(int \<times> bytes) list option"
  adv_service_uuids :: "string list option"

text \<open>
  One delivery of the callback: the device, the advertisement, and the two readings of
  the clock (\<^verbatim>\<open>_now_iso()\<close>) that the handler takes, the first for the console line and
  the second for the CSV row.
\<close>

record event =
  ev_device :: device
  ev_adv :: advertisement
  ev_now_console :: string
  ev_now_csv :: string

subsection \<open>Console output\<close>

text \<open>
  \<^verbatim>\<open>print_detection\<close>, lines 121-130. The replacement field \<^verbatim>\<open>{rssi:>4}\<close> calls
  \<^verbatim>\<open>format(rssi, ">4")\<close>, which raises \<^verbatim>\<open>TypeError\<close> on \<^verbatim>\<open>None\<close> (the format
  specification is not empty); the line is printed only when the whole string was built.
\<close>

definition print_detection ::
  "string \<Rightarrow> string option \<Rightarrow> int option \<Rightarrow> advertisement \<Rightarrow> string \<Rightarrow> world \<Rightarrow> py_error + world" where
  "print_detection address name rssi adv ts w =
     (let manu = fmt_manu_data (adv_manufacturer_data adv);
          services = fmt_services (adv_service_uuids adv);
          txp = adv_tx_power adv
      in case rssi of
           None \<Rightarrow> Inl TypeError
         | Some r \<Rightarrow>
             Inr (w\<lparr>console := console w @
               [''['' @ ts @ ''] '' @ ljust 20 address @ '' RSSI='' @ rjust 4 (str_int r) @
                '' dBm  TX='' @ rjust 3 (case txp of Some t \<Rightarrow> str_int t | None \<Rightarrow> ''-'') @ ''  '' @
                ''Name='' @ str_or_lit (str_or name (adv_local_name adv)) ''-'' @
                ''  Manu='' @ manu @ ''  Services='' @ services]\<rparr>))"

subsection \<open>The detection callback\<close>

text \<open>The first three statements of \<^verbatim>\<open>on_detect\<close>, lines 159-161.\<close>

definition resolve_addr :: "device \<Rightarrow> string" where
  "resolve_addr d =
     (case dev_address d of
        Some a \<Rightarrow> a
      | None \<Rightarrow> (case dev_mac_address d of Some m \<Rightarrow> m | None \<Rightarrow> ''?''))"

definition resolve_name :: "device \<Rightarrow> advertisement \<Rightarrow> string option" where
  "resolve_name d adv = str_or (dev_name d) (adv_local_name adv)"

definition resolve_rssi :: "device \<Rightarrow> advertisement \<Rightarrow> int option" where
  "resolve_rssi d adv = (case adv_rssi adv of Some r \<Rightarrow> Some r | None \<Rightarrow> dev_rssi d)"

text \<open>
  The two guards of \<^verbatim>\<open>on_detect\<close>, lines 163-169: the handler returns early when a
  guard fires, and goes on when \<open>accepts\<close> holds. A filter is applied when it is truthy
  (neither \<^verbatim>\<open>None\<close> nor the empty string). \<open>lw\<close> is \<^verbatim>\<open>str.lower\<close>.
\<close>

definition accepts :: "(string \<Rightarrow> string) \<Rightarrow> string option \<Rightarrow> string option \<Rightarrow> string option \<Rightarrow> string \<Rightarrow> bool" where
  "accepts lw filter_name filter_address name addr =
     (if (case filter_name of
            None \<Rightarrow> False
          | Some f \<Rightarrow> f \<noteq> [] \<and> \<not> str_in (lw f) (lw (str_or_lit name [])))
      then False
      else if (case filter_address of
                 None \<Rightarrow> False
               | Some f \<Rightarrow> f \<noteq> [] \<and> \<not> str_in (lw f) (lw addr))
      then False
      else True)"

record scan_state =
  last_seen :: "string \<rightharpoonup> int option"
  csvw :: CsvWriter
  env :: world

text \<open>
  \<^verbatim>\<open>on_detect\<close>, lines 158-181, over the variables of \<^verbatim>\<open>scan_ble\<close> that it closes over
  (the two filters, \<^verbatim>\<open>last_seen\<close> and \<^verbatim>\<open>csvw\<close>) and over \<^verbatim>\<open>str.lower\<close>, passed on as
  \<open>lw\<close> by \<^verbatim>\<open>deliver\<close>, \<^verbatim>\<open>scan_ble\<close> and \<^verbatim>\<open>main\<close>. The result is the exception that
  escapes the handler, if any, and the state it leaves behind: an assignment made before
  the exception stays made.
\<close>

definition on_detect ::
  "(string \<Rightarrow> string) \<Rightarrow> string option \<Rightarrow> string option \<Rightarrow> event \<Rightarrow> scan_state \<Rightarrow> py_error option \<times> scan_state" where
  "on_detect lw filter_name filter_address ev s =
     (let addr = resolve_addr (ev_device ev);
          name = resolve_name (ev_device ev) (ev_adv ev);
          rssi = resolve_rssi (ev_device ev) (ev_adv ev)
      in if \<not> accepts lw filter_name filter_address name addr then (None, s)
         else
           (let s1 = s\<lparr>last_seen := (last_seen s)(addr \<mapsto> rssi)\<rparr>
            in case print_detection addr name rssi (ev_adv ev) (ev_now_console ev) (env s1) of
                 Inl e \<Rightarrow> (Some e, s1)
               | Inr w1 \<Rightarrow>
                   (case CsvWriter_write (csvw s1) (ev_now_csv ev) addr name rssi
                           (adv_tx_power (ev_adv ev)) (adv_manufacturer_data (ev_adv ev))
                           (adv_service_uuids (ev_adv ev)) w1 of
                      Inl e \<Rightarrow> (Some e, s1\<lparr>env := w1\<rparr>)
                    | Inr w2 \<Rightarrow> (None, s1\<lparr>env := w2\<rparr>))))"

text \<open>
  The discovery primitive calls the handler once per advertisement, in delivery order.
  An exception that escapes a callback is reported by the event loop and does not end
  the scan, so the next advertisement is handled in the state the failed call left.
\<close>

fun deliver :: "(string \<Rightarrow> string) \<Rightarrow> string option \<Rightarrow> string option \<Rightarrow> event list \<Rightarrow> scan_state \<Rightarrow> scan_state" where
  "deliver lw filter_name filter_address [] s = s"
| "deliver lw filter_name filter_address (ev # evs) s =
     deliver lw filter_name filter_address evs (snd (on_detect lw filter_name filter_address ev s))"

subsection \<open>The scan lifecycle\<close>

text \<open>
  What the surroundings do during one run of \<^verbatim>\<open>scan_ble\<close>: whether
  \<^verbatim>\<open>loop.add_signal_handler\<close> could register \<^verbatim>\<open>_request_stop\<close> (on Windows it raises
  \<^verbatim>\<open>NotImplementedError\<close>, which lines 150-154 tolerate), when the external interrupt
  arrives if it ever does, whether \<^verbatim>\<open>scanner.start()\<close> and \<^verbatim>\<open>scanner.stop()\<close> raise, and
  the advertisements that the radio delivers with their arrival times. Times are seconds
  since the wait began; a duration is a Python float, taken as a real number.
\<close>

record external =
  handlers_installed :: bool
  interrupt_at :: "real option"
  start_raises :: "py_error option"
  stop_raises :: "py_error option"
  arrivals :: "(real \<times> event) list"

text \<open>
  How a wait ends: the stop event was set by the signal handler, the timeout of
  \<^verbatim>\<open>asyncio.wait_for\<close> expired, the interrupt cancelled the task at the \<^verbatim>\<open>await\<close> (no
  handler installed), or the wait never ends.
\<close>

datatype wait_result = StopRequested real | TimedOut real | Interrupted real py_error | Forever

text \<open>\<^verbatim>\<open>await stop_event.wait()\<close>: no timer is involved.\<close>

definition stop_event_wait :: "external \<Rightarrow> wait_result" where
  "stop_event_wait ext =
     (case interrupt_at ext of
        None \<Rightarrow> Forever
      | Some t \<Rightarrow> if handlers_installed ext then StopRequested t else Interrupted t CancelledError)"

text \<open>
  \<^verbatim>\<open>await asyncio.wait_for(stop_event.wait(), timeout=timeout)\<close>: without a timeout it is
  the plain wait; with one, a timer is armed and the wait ends with whichever comes
  first. A timeout that is not positive expires at once.
\<close>

definition asyncio_wait_for :: "real option \<Rightarrow> external \<Rightarrow> wait_result" where
  "asyncio_wait_for timeout ext =
     (case timeout of
        None \<Rightarrow> stop_event_wait ext
      | Some d \<Rightarrow>
          (case interrupt_at ext of
             None \<Rightarrow> TimedOut (max 0 d)
           | Some t \<Rightarrow> if t \<le> max 0 d then stop_event_wait ext else TimedOut (max 0 d)))"

text \<open>
  Lines 187-196 of \<^verbatim>\<open>scan_ble\<close>. \<^verbatim>\<open>duration in (None, 0)\<close> and \<^verbatim>\<open>not duration\<close> both
  hold exactly for \<^verbatim>\<open>None\<close> and for zero. The parameter \<^verbatim>\<open>continuous\<close> is \<open>cont\<close> here.
\<close>

definition scan_wait :: "real option \<Rightarrow> bool \<Rightarrow> external \<Rightarrow> wait_result" where
  "scan_wait duration cont ext =
     (if cont \<and> (duration = None \<or> duration = Some 0) then stop_event_wait ext
      else asyncio_wait_for (if duration = None \<or> duration = Some 0 then None else duration) ext)"

text \<open>The advertisements delivered to the callback up to time \<open>t\<close>.\<close>

definition delivered_until :: "real \<Rightarrow> external \<Rightarrow> event list" where
  "delivered_until t ext = map snd (filter (\<lambda>a. fst a \<le> t) (arrivals ext))"

text \<open>
  The \<^verbatim>\<open>finally\<close> block, lines 197-199, entered with the exception that is pending, if
  any. When \<^verbatim>\<open>scanner.stop()\<close> raises, \<^verbatim>\<open>csvw.close()\<close> is not reached and the new
  exception is the one that leaves the function.
\<close>

definition scan_ble_finally :: "external \<Rightarrow> py_error option \<Rightarrow> scan_state \<Rightarrow> py_error option \<times> scan_state" where
  "scan_ble_finally ext pending s =
     (case stop_raises ext of
        Some e \<Rightarrow> (Some e, s)
      | None \<Rightarrow>
          (let w1 = (env s)\<lparr>trace := trace (env s) @ [ScannerStopped]\<rparr>;
               cw = CsvWriter_close (csvw s) w1
           in (pending, s\<lparr>csvw := fst cw, env := snd cw\<rparr>)))"

text \<open>
  \<^verbatim>\<open>scan_ble\<close>, lines 133-199. The result is \<open>None\<close> when the coroutine never returns,
  and otherwise the exception that leaves it, if any, with the final state.
\<close>

definition scan_ble ::
  "(string \<Rightarrow> string) \<Rightarrow> real option \<Rightarrow> string option \<Rightarrow> string option \<Rightarrow> bool \<Rightarrow> string option \<Rightarrow>
   external \<Rightarrow> world \<Rightarrow> (py_error option \<times> scan_state) option" where
  "scan_ble lw duration filter_name filter_address cont csv_path ext w =
     (case CsvWriter_open (CsvWriter_init csv_path) w of
        Inl e \<Rightarrow> Some (Some e, \<lparr>last_seen = Map.empty, csvw = CsvWriter_init csv_path, env = w\<rparr>)
      | Inr (c, w1) \<Rightarrow>
          (let s0 = \<lparr>last_seen = Map.empty, csvw = c, env = w1\<rparr>
           in case start_raises ext of
                Some e \<Rightarrow> Some (scan_ble_finally ext (Some e) s0)
              | None \<Rightarrow>
                  (let s1 = s0\<lparr>env := w1\<lparr>trace := trace w1 @ [ScannerStarted]\<rparr>\<rparr>
                   in case scan_wait duration cont ext of
                        Forever \<Rightarrow> None
                      | StopRequested t \<Rightarrow>
                          Some (scan_ble_finally ext None
                                 (deliver lw filter_name filter_address (delivered_until t ext) s1))
                      | TimedOut t \<Rightarrow>
                          Some (scan_ble_finally ext None
                                 (deliver lw filter_name filter_address (delivered_until t ext) s1))
                      | Interrupted t e \<Rightarrow>
                          Some (scan_ble_finally ext (Some e)
                                 (deliver lw filter_name filter_address (delivered_until t ext) s1)))))"

text \<open>The parsed command line (\<^verbatim>\<open>parse_args\<close>, lines 202-233).\<close>

record args =
  arg_duration :: real
  arg_continuous :: bool
  arg_filter_name :: "string option"
  arg_filter_address :: "string option"
  arg_csv :: "string option"

text \<open>Line 238 of \<^verbatim>\<open>main\<close>.\<close>

definition main_duration :: "args \<Rightarrow> real option" where
  "main_duration a =
     (if arg_continuous a then None
      else (if arg_duration a = 0 then None else Some (arg_duration a)))"

text \<open>
  \<^verbatim>\<open>main\<close>, lines 236-252. An interrupt that cancelled the task leaves \<^verbatim>\<open>asyncio.run\<close> as
  \<^verbatim>\<open>KeyboardInterrupt\<close>, which \<^verbatim>\<open>main\<close> swallows; any other exception propagates.
\<close>

definition main :: "(string \<Rightarrow> string) \<Rightarrow> args \<Rightarrow> external \<Rightarrow> world \<Rightarrow> ((py_error + int) \<times> world) option" where
  "main lw a ext w =
     (case scan_ble lw (main_duration a) (arg_filter_name a) (arg_filter_address a)
                    (arg_continuous a) (arg_csv a) ext w of
        None \<Rightarrow> None
      | Some r \<Rightarrow>
          Some ((case fst r of
                   None \<Rightarrow> Inr 0
                 | Some e \<Rightarrow> if e = CancelledError then Inr 0 else Inl e),
                env (snd r)))"

text \<open>
  The time at which a wait ends, and whether it was the timer that ended it: the
  \<open>Scanning \<rightarrow> Stopping\<close> transition of the specification.
\<close>

definition ends_at :: "wait_result \<Rightarrow> real option" where
  "ends_at r = (case r of StopRequested t \<Rightarrow> Some t | TimedOut t \<Rightarrow> Some t
                | Interrupted t e \<Rightarrow> Some t | Forever \<Rightarrow> None)"

definition by_timer :: "wait_result \<Rightarrow> bool" where
  "by_timer r = (case r of TimedOut t \<Rightarrow> True | _ \<Rightarrow> False)"

text \<open>
  The ordering that teardown has to keep, read off a trace: starting with the discovery
  primitive active or not, no file object is closed while it is active.
\<close>

fun closed_only_when_stopped :: "bool \<Rightarrow> action list \<Rightarrow> bool" where
  "closed_only_when_stopped active [] = True"
| "closed_only_when_stopped active (ScannerStarted # as) = closed_only_when_stopped True as"
| "closed_only_when_stopped active (ScannerStopped # as) = closed_only_when_stopped False as"
| "closed_only_when_stopped active (FileClosed h # as) = (\<not> active \<and> closed_only_when_stopped active as)"
| "closed_only_when_stopped active (FileOpened h p # as) = closed_only_when_stopped active as"

subsection \<open>Reading an event the way the handler does\<close>

text \<open>
  The address, display name and signal strength that \<^verbatim>\<open>on_detect\<close> resolves from an
  event, and whether the event passes the guards.
\<close>

definition ev_addr :: "event \<Rightarrow> string" where
  "ev_addr ev = resolve_addr (ev_device ev)"

definition ev_name :: "event \<Rightarrow> string option" where
  "ev_name ev = resolve_name (ev_device ev) (ev_adv ev)"

definition ev_rssi :: "event \<Rightarrow> int option" where
  "ev_rssi ev = resolve_rssi (ev_device ev) (ev_adv ev)"

definition accepted :: "(string \<Rightarrow> string) \<Rightarrow> string option \<Rightarrow> string option \<Rightarrow> event \<Rightarrow> bool" where
  "accepted lw filter_name filter_address ev =
     accepts lw filter_name filter_address (ev_name ev) (ev_addr ev)"

text \<open>
  The calls that \<^verbatim>\<open>CsvWriter.open\<close> and \<^verbatim>\<open>CsvWriter.close\<close> make on the file object of a
  session started in world \<open>w\<close> with target path \<open>p\<close>: none when no path is configured.
\<close>

definition opened_part :: "string option \<Rightarrow> world \<Rightarrow> action list" where
  "opened_part p w =
     (case p of
        None \<Rightarrow> []
      | Some q \<Rightarrow> if q = [] then [] else [FileOpened (length (handles w)) q])"

definition closed_part :: "string option \<Rightarrow> world \<Rightarrow> action list" where
  "closed_part p w =
     (case p of
        None \<Rightarrow> []
      | Some q \<Rightarrow> if q = [] then [] else [FileClosed (length (handles w))])"

subsection \<open>Sample inputs\<close>

text \<open>
  A world with an empty, writable file system, a session state on it, and events built
  from an address, a device name and an advertisement RSSI, everything else absent.
\<close>

definition quiet_world :: world where
  "quiet_world =
     \<lparr>files = Map.empty, writable = (\<lambda>p. True), handles = [], console = [], trace = []\<rparr>"

definition fresh_state :: scan_state where
  "fresh_state = \<lparr>last_seen = Map.empty, csvw = CsvWriter_init None, env = quiet_world\<rparr>"

definition sample_event :: "string \<Rightarrow> string option \<Rightarrow> int option \<Rightarrow> event" where
  "sample_event addr name rssi =
     \<lparr>ev_device = \<lparr>dev_address = Some addr, dev_mac_address = None, dev_name = name,
                    dev_rssi = None\<rparr>,
      ev_adv = \<lparr>adv_local_name = None, adv_rssi = rssi, adv_tx_power = None,
                 adv_manufacturer_data = None, adv_service_uuids = None\<rparr>,
      ev_now_console = ''2024-05-01T10:00:00+00:00'',
      ev_now_csv = ''2024-05-01T10:00:01+00:00''\<rparr>"

text \<open>
  A lower-casing function beyond ASCII, for a name with a capital E acute (the UTF-8
  bytes C3 89, lower case C3 A9): \<^verbatim>\<open>str.lower\<close> restricted to ASCII and that letter.
\<close>

fun sample_lower :: "string \<Rightarrow> string" where
  "sample_lower [] = []"
| "sample_lower [c] = [lower_char c]"
| "sample_lower (c # d # r) =
     (if c = CHR 0xC3 \<and> d = CHR 0x89 then c # CHR 0xA9 # sample_lower r
      else lower_char c # sample_lower (d # r))"

definition sample_external :: "real option \<Rightarrow> external" where
  "sample_external interrupt =
     \<lparr>handlers_installed = True, interrupt_at = interrupt, start_raises = None,
      stop_raises = None,
      arrivals = [(1, sample_event ''AA:BB:CC:00:00:01'' (Some ''MyBeacon2000'') (Some (- 60)))]\<rparr>"

text \<open>Surroundings in which \<^verbatim>\<open>scanner.stop()\<close> raises and nothing else happens.\<close>

definition failing_stop_external :: external where
  "failing_stop_external =
     \<lparr>handlers_installed = True, interrupt_at = None, start_raises = None,
      stop_raises = Some BleakError, arrivals = []\<rparr>"

definition sample_args :: "real \<Rightarrow> bool \<Rightarrow> args" where
  "sample_args duration cont =
     \<lparr>arg_duration = duration, arg_continuous = cont, arg_filter_name = None,
      arg_filter_address = None, arg_csv = None\<rparr>"

subsection \<open>Readers of the formatted fields\<close>

text \<open>
  The specification speaks of a company id shown as exactly four hexadecimal digits and
  of the lower-case hexadecimal encoding of a payload. These definitions are the
  specification side: \<open>hex4\<close> is the four-digit rendering written out digit by digit,
  \<open>hex_value\<close> reads one lower-case hexadecimal digit (and nothing else),
  \<open>parse_hex\<close> reads a number and \<open>unhex\<close> reads a byte string back.
\<close>

definition hex4 :: "nat \<Rightarrow> string" where
  "hex4 n = [hex_digit (n div 4096), hex_digit (n div 256 mod 16),
             hex_digit (n div 16 mod 16), hex_digit (n mod 16)]"

definition hex_value :: "char \<Rightarrow> nat option" where
  "hex_value c = map_of (zip ''0123456789abcdef'' [0..<16]) c"

fun parse_hex :: "nat \<Rightarrow> string \<Rightarrow> nat option" where
  "parse_hex a [] = Some a"
| "parse_hex a (c # cs) =
     (case hex_value c of None \<Rightarrow> None | Some v \<Rightarrow> parse_hex (16 * a + v) cs)"

fun unhex :: "string \<Rightarrow> bytes option" where
  "unhex [] = Some []"
| "unhex [c] = None"
| "unhex (c # d # r) =
     (case (hex_value c, hex_value d, unhex r) of
        (Some h, Some l, Some bs) \<Rightarrow> Some (of_nat (16 * h + l) # bs)
      | _ \<Rightarrow> None)"

section \<open>Properties\<close>

subsection \<open>Hexadecimal digits\<close>

lemma replicate_2: "replicate 2 x = [x, x]"
  by (simp add: numeral_2_eq_2)

lemma replicate_3: "replicate 3 x = [x, x, x]"
  by (simp add: numeral_3_eq_3)

lemma lt16_cases: "n < 16 \<Longrightarrow> n \<in> {0,1,2,3,4,5,6,7,8,9,10,11,12,13,14,15::nat}"
  by simp arith

lemma hex_value_hex_digit: "n < 16 \<Longrightarrow> hex_value (hex_digit n) = Some n"
  apply (drule lt16_cases)
  apply (simp only: insert_iff empty_iff)
  apply (elim disjE FalseE)
  apply (simp_all add: hex_value_def hex_digit_def upt_conv_Cons)
  done

lemma byte_hi_lt16: "unat (b :: 8 word) div 16 < 16"
proof -
  have "unat b < 256" using unsigned_less [of b] by simp
  then show ?thesis by simp
qed

lemma unhex_bytes_hex: "unhex (bytes_hex p) = Some p"
  by (induction p) (simp_all add: bytes_hex_def hex_value_hex_digit byte_hi_lt16)

lemma length_bytes_hex: "length (bytes_hex p) = 2 * length p"
  by (induction p) (simp_all add: bytes_hex_def)

lemma hex_digit_0: "hex_digit 0 = CHR ''0''"
  by (simp add: hex_digit_def)

lemma hex_digits_lt16: "n < 16 \<Longrightarrow> hex_digits n = [hex_digit n]"
  by (simp add: hex_digits.simps)

lemma hex_digits_ge16:
  "16 \<le> n \<Longrightarrow> hex_digits n = hex_digits (n div 16) @ [hex_digit (n mod 16)]"
  by (subst hex_digits.simps) simp

text \<open>Below \<open>2^16\<close> the zero padding of \<^verbatim>\<open>#06x\<close> fills the digits up to exactly four.\<close>

lemma hex_digits_u16:
  assumes "n < 65536"
  shows "replicate (4 - length (hex_digits n)) CHR ''0'' @ hex_digits n = hex4 n"
proof -
  consider "n < 16" | "16 \<le> n" "n < 256" | "256 \<le> n" "n < 4096" | "4096 \<le> n"
    by linarith
  then show ?thesis
  proof cases
    case 1
    then show ?thesis
      by (simp add: hex_digits_lt16 hex4_def hex_digit_0 replicate_3)
  next
    case 2
    then have a: "n div 16 < 16" "n div 256 = 0" "n div 4096 = 0" "n div 16 mod 16 = n div 16"
      by simp_all
    with 2 show ?thesis
      by (simp add: hex_digits_ge16 hex_digits_lt16 hex4_def hex_digit_0 replicate_2)
  next
    case 3
    then have a: "n div 16 div 16 < 16" "16 \<le> n div 16" "n div 4096 = 0"
      by simp_all
    have b: "n div 16 div 16 = n div 256" "n div 256 mod 16 = n div 256"
      using 3 by (simp_all add: div_mult2_eq [symmetric])
    from 3 a show ?thesis
      by (simp add: hex_digits_ge16 hex_digits_lt16 hex4_def hex_digit_0 b)
  next
    case 4
    then have a: "n div 16 div 16 div 16 < 16" "16 \<le> n div 16" "16 \<le> n div 16 div 16"
      using assms by simp_all
    have b: "n div 16 div 16 = n div 256" "n div 16 div 16 div 16 = n div 4096"
      "n div 256 div 16 = n div 4096"
      by (simp_all add: div_mult2_eq [symmetric])
    from 4 a show ?thesis
      by (simp add: hex_digits_ge16 hex_digits_lt16 hex4_def b)
  qed
qed

lemma format_06x_u16:
  assumes "0 \<le> i" "i < 65536"
  shows "format_06x i = ''0x'' @ hex4 (nat i)"
proof -
  have n: "nat i < 65536" "\<bar>i\<bar> = i" "\<not> i < 0"
    using assms by auto
  show ?thesis
    using hex_digits_u16 [OF n(1)] n(2,3) by (simp add: format_06x_def Let_def)
qed

lemma base16_u16:
  "16 * (16 * (16 * (n div 4096) + n div 256 mod 16) + n div 16 mod 16) + n mod 16 = (n::nat)"
proof -
  have d1: "n div 256 = n div 16 div 16" and d2: "n div 4096 = n div 256 div 16"
    by (simp_all add: div_mult2_eq [symmetric])
  have s1: "16 * (n div 16) + n mod 16 = n" by simp
  have s2: "16 * (n div 256) + n div 16 mod 16 = n div 16" unfolding d1 by simp
  have s3: "16 * (n div 4096) + n div 256 mod 16 = n div 256" unfolding d2 by simp
  show ?thesis unfolding s3 s2 s1 ..
qed

lemma parse_hex4:
  assumes "n < 65536"
  shows "parse_hex 0 (hex4 n) = Some n"
proof -
  have a: "n div 4096 < 16" using assms by simp
  show ?thesis
    using a base16_u16 [of n] by (simp add: hex4_def hex_value_hex_digit)
qed

lemma fmt_manu_entry_u16:
  "0 \<le> fst e \<Longrightarrow> fst e < 65536 \<Longrightarrow>
   fmt_manu_entry e = ''0x'' @ hex4 (nat (fst e)) @ '':'' @ bytes_hex (snd e)"
  by (simp add: fmt_manu_entry_def format_06x_u16)

subsection \<open>Record formatters\<close>

text \<open>
  C7. Service formatting returns exactly \<^verbatim>\<open>-\<close> for an absent or empty collection. For
  a non-empty collection the output is the comma-joined list of the identifiers in
  lexicographically sorted order (a sorted list with the same elements, counted with
  multiplicity), and two collections that are permutations of one another give the same
  output.
\<close>

theorem fmt_services_sorted:
  "fmt_services None = ''-'' \<and> fmt_services (Some []) = ''-'' \<and>
   (us \<noteq> [] \<longrightarrow>
      (\<exists>ss. fmt_services (Some us) = join '','' ss \<and> sorted ss \<and> mset ss = mset us)) \<and>
   (mset us = mset vs \<longrightarrow> fmt_services (Some us) = fmt_services (Some vs))"
proof -
  have perm: "fmt_services (Some us) = fmt_services (Some vs)" if eq: "mset us = mset vs"
  proof -
    have "sort us = sort vs"
      using eq by (metis properties_for_sort mset_sort sorted_sort)
    moreover have "us = [] \<longleftrightarrow> vs = []"
      using eq by (metis mset_zero_iff)
    ultimately show ?thesis
      by (simp add: fmt_services_def)
  qed
  have srt: "\<exists>ss. fmt_services (Some us) = join '','' ss \<and> sorted ss \<and> mset ss = mset us"
    if "us \<noteq> []"
    using that by (intro exI [of _ "sort us"]) (simp add: fmt_services_def)
  show ?thesis
    using perm srt by (simp add: fmt_services_def)
qed

theorem fmt_services_sorted_witness:
  "fmt_services (Some [''180f'', ''180a'', ''fe9f'']) = ''180a,180f,fe9f'' \<and>
   fmt_services (Some [''fe9f'', ''180a'', ''180f'']) = fmt_services (Some [''180f'', ''180a'', ''fe9f''])"
proof -
  have m: "mset [''fe9f'', ''180a'', ''180f''] = mset [''180f'', ''180a'', ''fe9f'']"
    by simp
  have "fmt_services (Some [''180f'', ''180a'', ''fe9f'']) = ''180a,180f,fe9f''"
    by code_simp
  then show ?thesis
    using fmt_services_sorted [of "[''fe9f'', ''180a'', ''180f'']" "[''180f'', ''180a'', ''fe9f'']"] m
    by simp
qed

text \<open>
  C8. Manufacturer-data formatting returns exactly \<^verbatim>\<open>-\<close> for an absent or empty mapping.
  For a non-empty mapping whose company ids lie in \<open>0 \<le> id < 2^16\<close>, the output is the
  comma-joined list, in the mapping's iteration order, of \<^verbatim>\<open>0x\<close>, exactly four hexadecimal
  digits that read back as the company id, a colon, and two lower-case hexadecimal digits
  per payload byte that read back as the payload.
\<close>

theorem fmt_manu_data_format:
  "fmt_manu_data None = ''-'' \<and> fmt_manu_data (Some []) = ''-'' \<and>
   (items \<noteq> [] \<and> (\<forall>e \<in> set items. 0 \<le> fst e \<and> fst e < 2 ^ 16) \<longrightarrow>
      fmt_manu_data (Some items) =
        join '','' (map (\<lambda>e. ''0x'' @ hex4 (nat (fst e)) @ '':'' @ bytes_hex (snd e)) items) \<and>
      (\<forall>e \<in> set items.
         length (hex4 (nat (fst e))) = 4 \<and>
         parse_hex 0 (hex4 (nat (fst e))) = Some (nat (fst e)) \<and>
         length (bytes_hex (snd e)) = 2 * length (snd e) \<and>
         unhex (bytes_hex (snd e)) = Some (snd e)))"
proof -
  have body: "fmt_manu_data (Some items) =
        join '','' (map (\<lambda>e. ''0x'' @ hex4 (nat (fst e)) @ '':'' @ bytes_hex (snd e)) items)"
    if ne: "items \<noteq> []" and rng: "\<forall>e \<in> set items. 0 \<le> fst e \<and> fst e < 2 ^ 16"
  proof -
    have meq: "map fmt_manu_entry items =
          map (\<lambda>e. ''0x'' @ hex4 (nat (fst e)) @ '':'' @ bytes_hex (snd e)) items"
      using rng by (simp add: fmt_manu_entry_u16)
    have "fmt_manu_data (Some items) = join '','' (map fmt_manu_entry items)"
      using ne by (simp add: fmt_manu_data_def)
    then show ?thesis
      unfolding meq .
  qed
  have digits: "length (hex4 (nat (fst e))) = 4 \<and>
         parse_hex 0 (hex4 (nat (fst e))) = Some (nat (fst e)) \<and>
         length (bytes_hex (snd e)) = 2 * length (snd e) \<and>
         unhex (bytes_hex (snd e)) = Some (snd e)"
    if "0 \<le> fst e \<and> fst e < 2 ^ 16" for e :: "int \<times> bytes"
  proof -
    have "fst e < 65536" using that by simp
    then have "nat (fst e) < 65536" by linarith
    then show ?thesis
      by (simp add: parse_hex4 length_bytes_hex unhex_bytes_hex) (simp add: hex4_def)
  qed
  show ?thesis
    using body digits by (simp add: fmt_manu_data_def)
qed

theorem fmt_manu_data_format_witness:
  "fmt_manu_data (Some [(76, [0x02, 0x15, 0xAB]), (65535, [])]) = ''0x004c:0215ab,0xffff:''"
  using fmt_manu_data_format [of "[(76, [0x02, 0x15, 0xAB]), (65535, [])]"]
  by (simp add: hex4_def hex_digit_def bytes_hex_def)

subsection \<open>The filter\<close>

lemma starts_with_iff: "starts_with n h \<longleftrightarrow> (\<exists>post. h = n @ post)"
  by (induction n h rule: starts_with.induct) auto

lemma str_in_iff: "str_in n h \<longleftrightarrow> (\<exists>pre post. h = pre @ n @ post)"
proof (induction h)
  case Nil
  then show ?case by auto
next
  case (Cons c cs)
  have "(\<exists>pre post. c # cs = pre @ n @ post) \<longleftrightarrow>
        (\<exists>post. c # cs = n @ post) \<or> (\<exists>pre post. cs = pre @ n @ post)"
    by (auto simp: Cons_eq_append_conv)
  then show ?case
    using Cons by (simp add: starts_with_iff del: starts_with.simps)
qed

lemma str_or_lit_empty: "str_or_lit name [] = (case name of None \<Rightarrow> [] | Some n \<Rightarrow> n)"
  by (simp add: str_or_lit_def split: option.splits)

text \<open>
  C3. Whatever function \<^verbatim>\<open>str.lower\<close> is, the guards of the handler accept an event
  exactly when both constraints hold: if a name filter is set (a non-empty string), its
  lower-cased text occurs as a substring of the lower-cased resolved name (an absent
  name counting as the empty string), and if an address filter is set, its lower-cased
  text occurs in the lower-cased address. An empty filter string counts as unset; as
  lower-casing the empty string gives the empty string, which occurs in every string,
  the same holds with "set" read as "not \<^verbatim>\<open>None\<close>". With both filters unset every event
  is accepted. As \<^verbatim>\<open>str.lower\<close> is \<open>ascii_lower\<close> on ASCII strings, name filter
  \<^verbatim>\<open>beacon\<close> accepts \<^verbatim>\<open>MyBeacon2000\<close> and rejects \<^verbatim>\<open>Thermostat\<close>.
\<close>

theorem accepts_iff:
  "(accepts lw fn fa name addr \<longleftrightarrow>
      (\<forall>f. fn = Some f \<and> f \<noteq> [] \<longrightarrow>
           (\<exists>pre post. lw (case name of None \<Rightarrow> [] | Some n \<Rightarrow> n) = pre @ lw f @ post)) \<and>
      (\<forall>f. fa = Some f \<and> f \<noteq> [] \<longrightarrow> (\<exists>pre post. lw addr = pre @ lw f @ post))) \<and>
   (lw [] = [] \<longrightarrow>
      (accepts lw fn fa name addr \<longleftrightarrow>
         (\<forall>f. fn = Some f \<longrightarrow>
              (\<exists>pre post. lw (case name of None \<Rightarrow> [] | Some n \<Rightarrow> n) = pre @ lw f @ post)) \<and>
         (\<forall>f. fa = Some f \<longrightarrow> (\<exists>pre post. lw addr = pre @ lw f @ post)))) \<and>
   accepts lw None None name addr \<and>
   ((\<forall>s. list_all is_ascii s \<longrightarrow> lw s = ascii_lower s) \<longrightarrow>
      accepts lw (Some ''beacon'') None (Some ''MyBeacon2000'') addr \<and>
      \<not> accepts lw (Some ''beacon'') None (Some ''Thermostat'') addr)"
proof -
  have main: "accepts lw fn fa name addr \<longleftrightarrow>
      (\<forall>f. fn = Some f \<and> f \<noteq> [] \<longrightarrow>
           (\<exists>pre post. lw (case name of None \<Rightarrow> [] | Some n \<Rightarrow> n) = pre @ lw f @ post)) \<and>
      (\<forall>f. fa = Some f \<and> f \<noteq> [] \<longrightarrow> (\<exists>pre post. lw addr = pre @ lw f @ post))"
    by (cases fn; cases fa) (auto simp: accepts_def str_in_iff str_or_lit_empty)
  have unset: "accepts lw fn fa name addr \<longleftrightarrow>
         (\<forall>f. fn = Some f \<longrightarrow>
              (\<exists>pre post. lw (case name of None \<Rightarrow> [] | Some n \<Rightarrow> n) = pre @ lw f @ post)) \<and>
         (\<forall>f. fa = Some f \<longrightarrow> (\<exists>pre post. lw addr = pre @ lw f @ post))"
    if e: "lw [] = []"
  proof -
    have empty: "\<exists>pre post. (h :: string) = pre @ lw [] @ post" for h
      by (rule exI [of _ "[]"], rule exI [of _ h]) (simp add: e)
    show ?thesis
      unfolding main using empty by (metis (no_types))
  qed
  have a: "accepts lw None None name addr"
    by (simp add: accepts_def)
  have b: "accepts lw (Some ''beacon'') None (Some ''MyBeacon2000'') addr \<and>
      \<not> accepts lw (Some ''beacon'') None (Some ''Thermostat'') addr"
    if h: "\<forall>s. list_all is_ascii s \<longrightarrow> lw s = ascii_lower s"
  proof -
    have "lw ''beacon'' = ascii_lower ''beacon''" "lw ''MyBeacon2000'' = ascii_lower ''MyBeacon2000''"
      "lw ''Thermostat'' = ascii_lower ''Thermostat''"
      using h by (simp_all add: is_ascii_def)
    then show ?thesis
      by (simp add: accepts_def str_or_lit_def ascii_lower_def lower_char_def)
  qed
  show ?thesis using main unset a b by blast
qed

theorem accepts_iff_witness:
  "accepts ascii_lower (Some ''beacon'') (Some ''aa:bb'') (Some ''MyBeacon2000'')
     ''AA:BB:CC:00:00:01'' \<and>
   \<not> accepts ascii_lower (Some ''beacon'') (Some ''aa:bb'') None ''AA:BB:CC:00:00:01'' \<and>
   accepts ascii_lower (Some ''beacon'') None (Some ''MyBeacon2000'') ''AA:BB:CC:00:00:01'' \<and>
   accepts sample_lower (Some [CHR 0xC3, CHR 0xA9]) None
     (Some [CHR ''C'', CHR ''A'', CHR ''F'', CHR 0xC3, CHR 0x89]) ''AA:BB:CC:00:00:01''"
proof -
  have n: "\<exists>pre post. ascii_lower ''MyBeacon2000'' = pre @ ascii_lower ''beacon'' @ post"
    by (rule exI [of _ "''my''"], rule exI [of _ "''2000''"])
      (simp add: ascii_lower_def lower_char_def)
  have a: "\<exists>pre post. ascii_lower ''AA:BB:CC:00:00:01'' = pre @ ascii_lower ''aa:bb'' @ post"
    by (rule exI [of _ "[]"], rule exI [of _ "'':cc:00:00:01''"])
      (simp add: ascii_lower_def lower_char_def)
  have e: "\<not> (\<exists>pre post. ascii_lower [] = pre @ ascii_lower ''beacon'' @ post)"
    by (simp add: ascii_lower_def)
  have u: "\<exists>pre post. sample_lower [CHR ''C'', CHR ''A'', CHR ''F'', CHR 0xC3, CHR 0x89] =
             pre @ sample_lower [CHR 0xC3, CHR 0xA9] @ post"
    by (rule exI [of _ "''caf''"], rule exI [of _ "[]"]) (simp add: lower_char_def)
  have h: "\<forall>s. list_all is_ascii s \<longrightarrow> ascii_lower s = ascii_lower s"
    by simp
  have 1: "accepts ascii_lower (Some ''beacon'') (Some ''aa:bb'') (Some ''MyBeacon2000'')
             ''AA:BB:CC:00:00:01''"
    using accepts_iff [of ascii_lower "Some ''beacon''" "Some ''aa:bb''" "Some ''MyBeacon2000''"
        "''AA:BB:CC:00:00:01''"] n a
    by simp
  have 2: "\<not> accepts ascii_lower (Some ''beacon'') (Some ''aa:bb'') None ''AA:BB:CC:00:00:01''"
    using accepts_iff [of ascii_lower "Some ''beacon''" "Some ''aa:bb''" None
        "''AA:BB:CC:00:00:01''"] e
    by simp
  have 3: "accepts ascii_lower (Some ''beacon'') None (Some ''MyBeacon2000'') ''AA:BB:CC:00:00:01''"
    using accepts_iff [of ascii_lower None None None "''AA:BB:CC:00:00:01''"] h
    by blast
  have 4: "accepts sample_lower (Some [CHR 0xC3, CHR 0xA9]) None
     (Some [CHR ''C'', CHR ''A'', CHR ''F'', CHR 0xC3, CHR 0x89]) ''AA:BB:CC:00:00:01''"
    using accepts_iff [of sample_lower "Some [CHR 0xC3, CHR 0xA9]" None
        "Some [CHR ''C'', CHR ''A'', CHR ''F'', CHR 0xC3, CHR 0x89]" "''AA:BB:CC:00:00:01''"] u
    by simp
  show ?thesis
    using 1 2 3 4 by blast
qed

subsection \<open>The detection callback\<close>

text \<open>
  C4. For an event that the filter rejects, the handler returns without raising and
  leaves the whole state as it was: no console line, no file change, the same
  \<^verbatim>\<open>last_seen\<close>.
\<close>

theorem on_detect_rejected:
  "\<not> accepted lw fn fa ev \<longrightarrow>
     on_detect lw fn fa ev s = (None, s) \<and>
     console (env (snd (on_detect lw fn fa ev s))) = console (env s) \<and>
     files (env (snd (on_detect lw fn fa ev s))) = files (env s) \<and>
     last_seen (snd (on_detect lw fn fa ev s)) = last_seen s"
  by (simp add: on_detect_def accepted_def ev_name_def ev_addr_def Let_def)

theorem on_detect_rejected_witness:
  "\<not> accepted ascii_lower (Some ''beacon'') None
       (sample_event ''AA:BB:CC:00:00:02'' (Some ''Thermostat'') (Some (- 70))) \<and>
   on_detect ascii_lower (Some ''beacon'') None
       (sample_event ''AA:BB:CC:00:00:02'' (Some ''Thermostat'') (Some (- 70))) fresh_state =
     (None, fresh_state)"
proof -
  have r: "\<not> accepted ascii_lower (Some ''beacon'') None
       (sample_event ''AA:BB:CC:00:00:02'' (Some ''Thermostat'') (Some (- 70)))"
    by (simp add: accepted_def accepts_def ev_name_def ev_addr_def sample_event_def
        resolve_name_def resolve_addr_def str_or_def str_or_lit_def ascii_lower_def lower_char_def)
  show ?thesis
    using r on_detect_rejected [of ascii_lower "Some ''beacon''" None
        "sample_event ''AA:BB:CC:00:00:02'' (Some ''Thermostat'') (Some (- 70))" fresh_state]
    by simp
qed

text \<open>
  C10. An accepted event whose advertisement has no RSSI and whose device has none
  makes the handler raise \<^verbatim>\<open>TypeError\<close>: \<^verbatim>\<open>last_seen\<close> has already been assigned, and
  nothing is printed or written. The console line itself raises on an absent signal
  strength, whereas with a signal strength present an absent name, TX power,
  manufacturer data and service list are printed as \<^verbatim>\<open>-\<close>.
\<close>

theorem on_detect_no_rssi:
  "(accepted lw fn fa ev \<and> adv_rssi (ev_adv ev) = None \<and> dev_rssi (ev_device ev) = None \<longrightarrow>
      on_detect lw fn fa ev s =
        (Some TypeError, s\<lparr>last_seen := (last_seen s)(ev_addr ev \<mapsto> None)\<rparr>) \<and>
      console (env (snd (on_detect lw fn fa ev s))) = console (env s) \<and>
      files (env (snd (on_detect lw fn fa ev s))) = files (env s)) \<and>
   print_detection addr None None adv ts w = Inl TypeError \<and>
   print_detection addr None (Some r)
       \<lparr>adv_local_name = None, adv_rssi = ar, adv_tx_power = None,
        adv_manufacturer_data = None, adv_service_uuids = None\<rparr> ts w =
     Inr (w\<lparr>console := console w @
            [''['' @ ts @ ''] '' @ ljust 20 addr @ '' RSSI='' @ rjust 4 (str_int r) @
             '' dBm  TX=  -  Name=-  Manu=-  Services=-'']\<rparr>)"
proof -
  have raise: "on_detect lw fn fa ev s =
        (Some TypeError, s\<lparr>last_seen := (last_seen s)(ev_addr ev \<mapsto> None)\<rparr>)"
    if "accepted lw fn fa ev" "adv_rssi (ev_adv ev) = None" "dev_rssi (ev_device ev) = None"
    using that
    by (simp add: on_detect_def accepted_def ev_name_def ev_addr_def Let_def resolve_rssi_def
        print_detection_def)
  have p1: "print_detection addr None None adv ts w = Inl TypeError"
    by (simp add: print_detection_def)
  have p2: "print_detection addr None (Some r)
       \<lparr>adv_local_name = None, adv_rssi = ar, adv_tx_power = None,
        adv_manufacturer_data = None, adv_service_uuids = None\<rparr> ts w =
     Inr (w\<lparr>console := console w @
            [''['' @ ts @ ''] '' @ ljust 20 addr @ '' RSSI='' @ rjust 4 (str_int r) @
             '' dBm  TX=  -  Name=-  Manu=-  Services=-'']\<rparr>)"
    by (simp add: print_detection_def rjust_def replicate_2 fmt_manu_data_def fmt_services_def
        str_or_def str_or_lit_def)
  show ?thesis
    using raise p1 p2 by simp
qed

theorem on_detect_no_rssi_witness:
  "accepted ascii_lower None None (sample_event ''AA:BB:CC:00:00:03'' None None) \<and>
   on_detect ascii_lower None None (sample_event ''AA:BB:CC:00:00:03'' None None) fresh_state =
     (Some TypeError, fresh_state\<lparr>last_seen := [''AA:BB:CC:00:00:03'' \<mapsto> None]\<rparr>)"
proof -
  have a: "accepted ascii_lower None None (sample_event ''AA:BB:CC:00:00:03'' None None)"
    by (simp add: accepted_def accepts_def)
  have b: "adv_rssi (ev_adv (sample_event ''AA:BB:CC:00:00:03'' None None)) = None"
    "dev_rssi (ev_device (sample_event ''AA:BB:CC:00:00:03'' None None)) = None"
    "ev_addr (sample_event ''AA:BB:CC:00:00:03'' None None) = ''AA:BB:CC:00:00:03''"
    by (simp_all add: sample_event_def ev_addr_def resolve_addr_def)
  have c: "last_seen fresh_state = Map.empty"
    by (simp add: fresh_state_def)
  show ?thesis
    using a b c on_detect_no_rssi [of ascii_lower None None "sample_event ''AA:BB:CC:00:00:03'' None None"
        fresh_state]
    by simp
qed

subsection \<open>The log sink\<close>

lemma open_configured:
  assumes "p \<noteq> []" "writable w p"
  shows "CsvWriter_open (CsvWriter_init (Some p)) w =
     Inr (\<lparr>cw_path = Some p, cw_fh = Some (length (handles w)),
           cw_writer = Some (length (handles w))\<rparr>,
          w\<lparr>files := (files w)(p \<mapsto> (if file_rows w p = [] then [header_row] else file_rows w p)),
            handles := handles w @ [(p, True)],
            trace := trace w @ [FileOpened (length (handles w)) p]\<rparr>)"
  using assms
  by (simp add: CsvWriter_open_def CsvWriter_init_def file_open_append_def file_tell_def
      writerow_def file_rows_def)

lemma open_unconfigured:
  "p = None \<or> p = Some [] \<Longrightarrow> CsvWriter_open (CsvWriter_init p) w = Inr (CsvWriter_init p, w)"
  by (auto simp: CsvWriter_open_def CsvWriter_init_def)

lemma open_cases:
  assumes "CsvWriter_open (CsvWriter_init p) w = Inr (c, w1)"
  shows "((p = None \<or> p = Some []) \<and> c = CsvWriter_init p \<and> w1 = w) \<or>
         (\<exists>q. p = Some q \<and> q \<noteq> [] \<and> writable w q \<and>
              c = \<lparr>cw_path = Some q, cw_fh = Some (length (handles w)),
                    cw_writer = Some (length (handles w))\<rparr> \<and>
              handles w1 = handles w @ [(q, True)] \<and>
              trace w1 = trace w @ [FileOpened (length (handles w)) q])"
proof (cases "p = None \<or> p = Some []")
  case True
  then show ?thesis using assms open_unconfigured [OF True, of w] by simp
next
  case False
  then obtain q where q: "p = Some q" "q \<noteq> []" by auto
  show ?thesis
  proof (cases "writable w q")
    case True
    then show ?thesis using assms q open_configured [OF q(2) True] by auto
  next
    case False
    then show ?thesis using assms q
      by (simp add: CsvWriter_open_def CsvWriter_init_def file_open_append_def)
  qed
qed

text \<open>
  C2. For a configured target path that can be opened: if the target is new or empty,
  \<^verbatim>\<open>open()\<close> writes exactly the header row (timestamp, address, name, rssi, tx_power,
  manufacturer_data, service_uuids), and one \<^verbatim>\<open>write()\<close> after it leaves exactly two
  rows, the header and the data row; if the target already has rows, \<^verbatim>\<open>open()\<close> leaves
  them as they are and \<^verbatim>\<open>write()\<close> appends the data row after them, with no header.
\<close>

theorem open_then_write:
  "p \<noteq> [] \<and> writable w p \<longrightarrow>
     (\<exists>c1 w1 w2.
        CsvWriter_open (CsvWriter_init (Some p)) w = Inr (c1, w1) \<and>
        CsvWriter_write c1 ts addr name rssi txp manu uuids w1 = Inr w2 \<and>
        (file_rows w p = [] \<longrightarrow>
           file_rows w1 p =
             [[CStr ''timestamp'', CStr ''address'', CStr ''name'', CStr ''rssi'',
               CStr ''tx_power'', CStr ''manufacturer_data'', CStr ''service_uuids'']] \<and>
           file_rows w2 p =
             [[CStr ''timestamp'', CStr ''address'', CStr ''name'', CStr ''rssi'',
               CStr ''tx_power'', CStr ''manufacturer_data'', CStr ''service_uuids''],
              csv_record ts addr name rssi txp manu uuids]) \<and>
        (file_rows w p \<noteq> [] \<longrightarrow>
           file_rows w1 p = file_rows w p \<and>
           file_rows w2 p = file_rows w p @ [csv_record ts addr name rssi txp manu uuids]))"
proof (intro impI)
  assume a: "p \<noteq> [] \<and> writable w p"
  let ?h = "length (handles w)"
  let ?c1 = "\<lparr>cw_path = Some p, cw_fh = Some ?h, cw_writer = Some ?h\<rparr>"
  let ?w1 = "w\<lparr>files := (files w)(p \<mapsto> (if file_rows w p = [] then [header_row] else file_rows w p)),
            handles := handles w @ [(p, True)],
            trace := trace w @ [FileOpened ?h p]\<rparr>"
  let ?row = "csv_record ts addr name rssi txp manu uuids"
  let ?w2 = "?w1\<lparr>files := (files ?w1)(p \<mapsto> file_rows ?w1 p @ [?row])\<rparr>"
  have o: "CsvWriter_open (CsvWriter_init (Some p)) w = Inr (?c1, ?w1)"
    using a by (simp add: open_configured)
  have wr: "CsvWriter_write ?c1 ts addr name rssi txp manu uuids ?w1 = Inr ?w2"
    by (simp add: CsvWriter_write_def writerow_def)
  show "\<exists>c1 w1 w2.
        CsvWriter_open (CsvWriter_init (Some p)) w = Inr (c1, w1) \<and>
        CsvWriter_write c1 ts addr name rssi txp manu uuids w1 = Inr w2 \<and>
        (file_rows w p = [] \<longrightarrow>
           file_rows w1 p =
             [[CStr ''timestamp'', CStr ''address'', CStr ''name'', CStr ''rssi'',
               CStr ''tx_power'', CStr ''manufacturer_data'', CStr ''service_uuids'']] \<and>
           file_rows w2 p =
             [[CStr ''timestamp'', CStr ''address'', CStr ''name'', CStr ''rssi'',
               CStr ''tx_power'', CStr ''manufacturer_data'', CStr ''service_uuids''],
              csv_record ts addr name rssi txp manu uuids]) \<and>
        (file_rows w p \<noteq> [] \<longrightarrow>
           file_rows w1 p = file_rows w p \<and>
           file_rows w2 p = file_rows w p @ [csv_record ts addr name rssi txp manu uuids])"
    apply (rule exI [of _ ?c1], rule exI [of _ ?w1], rule exI [of _ ?w2])
    apply (simp only: o wr)
    apply (simp add: header_row_def file_rows_def)
    done
qed

theorem open_then_write_witness:
  "\<exists>c1 w1 w2.
     CsvWriter_open (CsvWriter_init (Some ''ble_log.csv'')) quiet_world = Inr (c1, w1) \<and>
     CsvWriter_write c1 ''2024-05-01T10:00:01+00:00'' ''AA:BB:CC:00:00:01'' None (Some (- 60)) None
       None None w1 = Inr w2 \<and>
     file_rows w2 ''ble_log.csv'' =
       [[CStr ''timestamp'', CStr ''address'', CStr ''name'', CStr ''rssi'',
         CStr ''tx_power'', CStr ''manufacturer_data'', CStr ''service_uuids''],
        [CStr ''2024-05-01T10:00:01+00:00'', CStr ''AA:BB:CC:00:00:01'', CStr '''',
         CInt (- 60), CStr '''', CStr ''-'', CStr ''-'']]"
proof -
  have h: "''ble_log.csv'' \<noteq> [] \<and> writable quiet_world ''ble_log.csv''"
    "file_rows quiet_world ''ble_log.csv'' = []"
    by (simp_all add: quiet_world_def file_rows_def)
  have r: "csv_record ''2024-05-01T10:00:01+00:00'' ''AA:BB:CC:00:00:01'' None (Some (- 60)) None
       None None =
        [CStr ''2024-05-01T10:00:01+00:00'', CStr ''AA:BB:CC:00:00:01'', CStr '''',
         CInt (- 60), CStr '''', CStr ''-'', CStr ''-'']"
    by (simp add: csv_record_def str_or_lit_def fmt_manu_data_def fmt_services_def)
  show ?thesis
    using open_then_write [of "''ble_log.csv''" quiet_world "''2024-05-01T10:00:01+00:00''"
        "''AA:BB:CC:00:00:01''" None "Some (- 60)" None None None] h
    unfolding r by blast
qed

text \<open>
  C9. On a sink with no target path, \<^verbatim>\<open>open()\<close>, \<^verbatim>\<open>write()\<close> and \<^verbatim>\<open>close()\<close> change
  nothing. On an unopened sink \<^verbatim>\<open>write()\<close> and \<^verbatim>\<open>close()\<close> change nothing. After a
  successful \<^verbatim>\<open>open()\<close>, \<^verbatim>\<open>close()\<close> closes the file object once (one close call on it,
  after which it is marked closed), a second \<^verbatim>\<open>close()\<close> changes nothing, and a
  \<^verbatim>\<open>write()\<close> after \<^verbatim>\<open>close()\<close> returns normally and writes nothing.
\<close>

theorem sink_noops:
  "(p = None \<or> p = Some [] \<longrightarrow>
      CsvWriter_open (CsvWriter_init p) w = Inr (CsvWriter_init p, w)) \<and>
   CsvWriter_write (CsvWriter_init p) ts addr name rssi txp manu uuids w = Inr w \<and>
   CsvWriter_close (CsvWriter_init p) w = (CsvWriter_init p, w) \<and>
   (CsvWriter_open (CsvWriter_init p) w = Inr (c1, w1) \<longrightarrow>
      (cw_fh c1 = None \<longrightarrow> CsvWriter_close c1 w1 = (c1, w1)) \<and>
      (\<forall>h. cw_fh c1 = Some h \<longrightarrow>
           trace (snd (CsvWriter_close c1 w1)) = trace w1 @ [FileClosed h] \<and>
           handles (snd (CsvWriter_close c1 w1)) ! h = (the p, False)) \<and>
      CsvWriter_close (fst (CsvWriter_close c1 w1)) w' = (fst (CsvWriter_close c1 w1), w') \<and>
      CsvWriter_write (fst (CsvWriter_close c1 w1)) ts addr name rssi txp manu uuids w' = Inr w')"
proof -
  have a: "CsvWriter_write (CsvWriter_init p) ts addr name rssi txp manu uuids w = Inr w"
    by (simp add: CsvWriter_write_def CsvWriter_init_def)
  have b: "CsvWriter_close (CsvWriter_init p) w = (CsvWriter_init p, w)"
    by (simp add: CsvWriter_close_def CsvWriter_init_def)
  have c: "(cw_fh c1 = None \<longrightarrow> CsvWriter_close c1 w1 = (c1, w1)) \<and>
      (\<forall>h. cw_fh c1 = Some h \<longrightarrow>
           trace (snd (CsvWriter_close c1 w1)) = trace w1 @ [FileClosed h] \<and>
           handles (snd (CsvWriter_close c1 w1)) ! h = (the p, False)) \<and>
      CsvWriter_close (fst (CsvWriter_close c1 w1)) w' = (fst (CsvWriter_close c1 w1), w') \<and>
      CsvWriter_write (fst (CsvWriter_close c1 w1)) ts addr name rssi txp manu uuids w' = Inr w'"
    if "CsvWriter_open (CsvWriter_init p) w = Inr (c1, w1)"
    using open_cases [OF that]
    by (auto simp: CsvWriter_close_def CsvWriter_write_def CsvWriter_init_def file_close_def
        nth_append)
  show ?thesis
    using a b c open_unconfigured [of p w] by blast
qed

theorem sink_noops_witness:
  "CsvWriter_open (CsvWriter_init None) quiet_world = Inr (CsvWriter_init None, quiet_world) \<and>
   (\<exists>c1 w1. CsvWriter_open (CsvWriter_init (Some ''ble_log.csv'')) quiet_world = Inr (c1, w1) \<and>
      cw_fh c1 = Some 0 \<and>
      trace (snd (CsvWriter_close c1 w1)) = [FileOpened 0 ''ble_log.csv'', FileClosed 0] \<and>
      CsvWriter_close (fst (CsvWriter_close c1 w1)) (snd (CsvWriter_close c1 w1)) =
        CsvWriter_close c1 w1 \<and>
      CsvWriter_write (fst (CsvWriter_close c1 w1)) ''2024-05-01T10:00:01+00:00''
        ''AA:BB:CC:00:00:01'' None (Some (- 60)) None None None (snd (CsvWriter_close c1 w1)) =
        Inr (snd (CsvWriter_close c1 w1)))"
proof -
  let ?c1 = "\<lparr>cw_path = Some ''ble_log.csv'', cw_fh = Some 0, cw_writer = Some 0\<rparr>"
  let ?w1 = "quiet_world\<lparr>files := (files quiet_world)(''ble_log.csv'' \<mapsto> [header_row]),
            handles := [(''ble_log.csv'', True)],
            trace := [FileOpened 0 ''ble_log.csv'']\<rparr>"
  let ?w' = "snd (CsvWriter_close ?c1 ?w1)"
  have o: "CsvWriter_open (CsvWriter_init (Some ''ble_log.csv'')) quiet_world = Inr (?c1, ?w1)"
    using open_configured [of "''ble_log.csv''" quiet_world]
    by (simp add: quiet_world_def file_rows_def)
  have t: "trace ?w1 = [FileOpened 0 ''ble_log.csv'']" "cw_fh ?c1 = Some 0"
    by simp_all
  note s = sink_noops [where p = "Some ''ble_log.csv''" and w = quiet_world and ?c1.0 = ?c1
      and ?w1.0 = ?w1 and w' = ?w' and ts = "''2024-05-01T10:00:01+00:00''"
      and addr = "''AA:BB:CC:00:00:01''" and name = None and rssi = "Some (- 60)" and txp = None
      and manu = None and uuids = None]
  note n = sink_noops [where p = None and w = quiet_world]
  have 1: "CsvWriter_open (CsvWriter_init None) quiet_world = Inr (CsvWriter_init None, quiet_world)"
    using n by simp
  have 2: "trace ?w' = [FileOpened 0 ''ble_log.csv'', FileClosed 0]"
    using s o t by simp
  have 3: "CsvWriter_close (fst (CsvWriter_close ?c1 ?w1)) ?w' = CsvWriter_close ?c1 ?w1"
    using s o by simp
  have 4: "CsvWriter_write (fst (CsvWriter_close ?c1 ?w1)) ''2024-05-01T10:00:01+00:00''
        ''AA:BB:CC:00:00:01'' None (Some (- 60)) None None None ?w' = Inr ?w'"
    using s o by simp
  show ?thesis
    using 1 o t(2) 2 3 4 by blast
qed

subsection \<open>The last-seen map\<close>

lemma on_detect_last_seen:
  "last_seen (snd (on_detect lw fn fa ev s)) =
     (if accepted lw fn fa ev then (last_seen s)(ev_addr ev \<mapsto> ev_rssi ev) else last_seen s)"
  by (simp add: on_detect_def accepted_def ev_name_def ev_addr_def ev_rssi_def Let_def
      split: sum.splits)

lemma deliver_last_seen:
  "last_seen (deliver lw fn fa evs s) =
     last_seen s ++
       map_of (rev (map (\<lambda>e. (ev_addr e, ev_rssi e)) (filter (accepted lw fn fa) evs)))"
proof (induction evs arbitrary: s)
  case Nil
  then show ?case by simp
next
  case (Cons ev evs)
  show ?case
    by (simp add: Cons.IH on_detect_last_seen)
qed

lemma map_of_rev_last:
  "map_of (rev (map (\<lambda>e. (f e, g e)) xs)) a =
     (if a \<in> f ` set xs then Some (g (last (filter (\<lambda>e. f e = a) xs))) else None)"
proof (induction xs rule: rev_induct)
  case Nil
  then show ?case by simp
next
  case (snoc x xs)
  then show ?case by auto
qed

text \<open>
  C5. Starting a session with an empty \<^verbatim>\<open>last_seen\<close>, after the handler has run on any
  sequence of events the map has exactly the addresses of the accepted events as keys
  (one entry per distinct address, so at most as many entries as accepted detections),
  and the entry of an address is the signal strength of the last accepted event from
  that address. Every single invocation keeps this: it assigns the entry of the event's
  address when the event is accepted and leaves the map alone otherwise.
\<close>

theorem last_seen_latest:
  "last_seen s = Map.empty \<longrightarrow>
     dom (last_seen (deliver lw fn fa evs s)) = ev_addr ` set (filter (accepted lw fn fa) evs) \<and>
     card (dom (last_seen (deliver lw fn fa evs s))) =
       card (ev_addr ` set (filter (accepted lw fn fa) evs)) \<and>
     card (dom (last_seen (deliver lw fn fa evs s))) \<le> length (filter (accepted lw fn fa) evs) \<and>
     (\<forall>a \<in> ev_addr ` set (filter (accepted lw fn fa) evs).
        last_seen (deliver lw fn fa evs s) a =
          Some (ev_rssi (last (filter (\<lambda>e. ev_addr e = a) (filter (accepted lw fn fa) evs))))) \<and>
     last_seen (snd (on_detect lw fn fa ev s')) =
       (if accepted lw fn fa ev then (last_seen s')(ev_addr ev \<mapsto> ev_rssi ev) else last_seen s')"
proof (intro impI)
  assume e: "last_seen s = Map.empty"
  let ?acc = "filter (accepted lw fn fa) evs"
  let ?final = "last_seen (deliver lw fn fa evs s)"
  have final: "?final a = (if a \<in> ev_addr ` set ?acc
                   then Some (ev_rssi (last (filter (\<lambda>e. ev_addr e = a) ?acc))) else None)" for a
    unfolding deliver_last_seen e by (simp only: empty_map_add map_of_rev_last)
  have d: "dom ?final = ev_addr ` set ?acc"
    by (auto simp: final dom_def split: if_splits)
  have c: "card (dom ?final) \<le> length ?acc"
    unfolding d by (metis card_image_le card_length le_trans List.finite_set)
  show "dom ?final = ev_addr ` set ?acc \<and>
     card (dom ?final) = card (ev_addr ` set ?acc) \<and>
     card (dom ?final) \<le> length ?acc \<and>
     (\<forall>a \<in> ev_addr ` set ?acc.
        ?final a = Some (ev_rssi (last (filter (\<lambda>e. ev_addr e = a) ?acc)))) \<and>
     last_seen (snd (on_detect lw fn fa ev s')) =
       (if accepted lw fn fa ev then (last_seen s')(ev_addr ev \<mapsto> ev_rssi ev) else last_seen s')"
    using d c final on_detect_last_seen by simp
qed

theorem last_seen_latest_witness:
  "dom (last_seen (deliver ascii_lower None None
          [sample_event ''AA:BB:CC:00:00:01'' None (Some (- 60)),
           sample_event ''AA:BB:CC:00:00:02'' None (Some (- 70)),
           sample_event ''AA:BB:CC:00:00:01'' None (Some (- 55))] fresh_state)) =
     {''AA:BB:CC:00:00:01'', ''AA:BB:CC:00:00:02''} \<and>
   last_seen (deliver ascii_lower None None
          [sample_event ''AA:BB:CC:00:00:01'' None (Some (- 60)),
           sample_event ''AA:BB:CC:00:00:02'' None (Some (- 70)),
           sample_event ''AA:BB:CC:00:00:01'' None (Some (- 55))] fresh_state)
      ''AA:BB:CC:00:00:01'' = Some (Some (- 55))"
proof -
  have a: "accepted ascii_lower None None ev" for ev
    by (simp add: accepted_def accepts_def)
  have b: "ev_addr (sample_event addr name rssi) = addr"
    "ev_rssi (sample_event addr name rssi) = rssi" for addr name rssi
    by (simp_all add: ev_addr_def ev_rssi_def sample_event_def resolve_addr_def resolve_rssi_def
        split: option.splits)
  have c: "last_seen fresh_state = Map.empty"
    by (simp add: fresh_state_def)
  show ?thesis
    using last_seen_latest [where lw = ascii_lower and s = fresh_state and fn = None and fa = None
        and evs = "[sample_event ''AA:BB:CC:00:00:01'' None (Some (- 60)),
           sample_event ''AA:BB:CC:00:00:02'' None (Some (- 70)),
           sample_event ''AA:BB:CC:00:00:01'' None (Some (- 55))]"] c
    by (simp add: a b)
qed

subsection \<open>What the handler leaves alone\<close>

lemma print_detection_frame:
  "print_detection a n r adv ts w = Inr w1 \<Longrightarrow>
     trace w1 = trace w \<and> handles w1 = handles w \<and> files w1 = files w"
  by (auto simp: print_detection_def Let_def split: option.splits)

lemma writerow_frame:
  "writerow h row w = Inr w1 \<Longrightarrow>
     trace w1 = trace w \<and> handles w1 = handles w \<and> console w1 = console w"
  by (auto simp: writerow_def split: if_splits)

lemma CsvWriter_write_frame:
  "CsvWriter_write c ts a n r t m u w = Inr w1 \<Longrightarrow>
     trace w1 = trace w \<and> handles w1 = handles w \<and> console w1 = console w"
  by (auto simp: CsvWriter_write_def split: option.splits dest: writerow_frame)

lemma on_detect_frame:
  "csvw (snd (on_detect lw fn fa ev s)) = csvw s \<and>
   trace (env (snd (on_detect lw fn fa ev s))) = trace (env s) \<and>
   handles (env (snd (on_detect lw fn fa ev s))) = handles (env s)"
proof (cases "accepts lw fn fa (resolve_name (ev_device ev) (ev_adv ev)) (resolve_addr (ev_device ev))")
  case False
  then show ?thesis by (simp add: on_detect_def Let_def)
next
  case acc: True
  show ?thesis
  proof (cases "print_detection (resolve_addr (ev_device ev))
                  (resolve_name (ev_device ev) (ev_adv ev))
                  (resolve_rssi (ev_device ev) (ev_adv ev)) (ev_adv ev) (ev_now_console ev) (env s)")
    case (Inl e)
    then show ?thesis using acc by (simp add: on_detect_def Let_def)
  next
    case p: (Inr w1)
    note f1 = print_detection_frame [OF p]
    show ?thesis
    proof (cases "CsvWriter_write (csvw s) (ev_now_csv ev) (resolve_addr (ev_device ev))
                    (resolve_name (ev_device ev) (ev_adv ev))
                    (resolve_rssi (ev_device ev) (ev_adv ev))
                    (adv_tx_power (ev_adv ev)) (adv_manufacturer_data (ev_adv ev))
                    (adv_service_uuids (ev_adv ev)) w1")
      case (Inl e)
      then show ?thesis using acc p f1 by (simp add: on_detect_def Let_def)
    next
      case wr: (Inr w2)
      note f2 = CsvWriter_write_frame [OF wr]
      show ?thesis using acc p wr f1 f2 by (simp add: on_detect_def Let_def)
    qed
  qed
qed

lemma deliver_frame:
  "csvw (deliver lw fn fa evs s) = csvw s \<and>
   trace (env (deliver lw fn fa evs s)) = trace (env s) \<and>
   handles (env (deliver lw fn fa evs s)) = handles (env s)"
  by (induction evs arbitrary: s) (simp_all add: on_detect_frame)

subsection \<open>The scan lifecycle\<close>

lemma finally_trace:
  "trace (env (snd (scan_ble_finally ext pending s))) =
     trace (env s) @
       (case stop_raises ext of
          Some e \<Rightarrow> []
        | None \<Rightarrow> ScannerStopped #
            (case cw_fh (csvw s) of
               None \<Rightarrow> []
             | Some h \<Rightarrow> if h < length (handles (env s)) then [FileClosed h] else []))"
  by (simp add: scan_ble_finally_def CsvWriter_close_def file_close_def Let_def
      split: option.splits)

lemma scan_ble_forever:
  "scan_ble lw duration fn fa cont csv_path ext w = None \<longleftrightarrow>
     (\<forall>e. CsvWriter_open (CsvWriter_init csv_path) w \<noteq> Inl e) \<and> start_raises ext = None \<and>
     scan_wait duration cont ext = Forever"
  by (auto simp: scan_ble_def Let_def split: sum.splits option.splits wait_result.splits)

lemma scan_ble_before_finally:
  assumes "scan_ble lw duration fn fa cont csv_path ext w = Some (err, s)"
    and "CsvWriter_open (CsvWriter_init csv_path) w = Inr (c, w1)"
  shows "\<exists>pending s'. (err, s) = scan_ble_finally ext pending s' \<and> csvw s' = c \<and>
           handles (env s') = handles w1 \<and>
           trace (env s') =
             trace w1 @ (case start_raises ext of None \<Rightarrow> [ScannerStarted] | Some e \<Rightarrow> [])"
proof (cases "start_raises ext")
  case (Some e)
  let ?s0 = "\<lparr>last_seen = Map.empty, csvw = c, env = w1\<rparr>"
  have "(err, s) = scan_ble_finally ext (Some e) ?s0"
    using assms Some by (simp add: scan_ble_def Let_def)
  then show ?thesis
    using Some by (intro exI [of _ "Some e"] exI [of _ ?s0]) simp
next
  case None
  let ?s1 = "\<lparr>last_seen = Map.empty, csvw = c, env = w1\<lparr>trace := trace w1 @ [ScannerStarted]\<rparr>\<rparr>"
  have d: "csvw (deliver lw fn fa evs ?s1) = c \<and>
           handles (env (deliver lw fn fa evs ?s1)) = handles w1 \<and>
           trace (env (deliver lw fn fa evs ?s1)) = trace w1 @ [ScannerStarted]" for evs
    using deliver_frame [of lw fn fa evs ?s1] by simp
  show ?thesis
  proof (cases "scan_wait duration cont ext")
    case Forever
    then show ?thesis using assms None by (simp add: scan_ble_def Let_def)
  next
    case (StopRequested t)
    then have "(err, s) = scan_ble_finally ext None (deliver lw fn fa (delivered_until t ext) ?s1)"
      using assms None by (simp add: scan_ble_def Let_def)
    then show ?thesis
      using None d [of "delivered_until t ext"]
      by (intro exI [of _ "None"] exI [of _ "deliver lw fn fa (delivered_until t ext) ?s1"]) simp
  next
    case (TimedOut t)
    then have "(err, s) = scan_ble_finally ext None (deliver lw fn fa (delivered_until t ext) ?s1)"
      using assms None by (simp add: scan_ble_def Let_def)
    then show ?thesis
      using None d [of "delivered_until t ext"]
      by (intro exI [of _ "None"] exI [of _ "deliver lw fn fa (delivered_until t ext) ?s1"]) simp
  next
    case (Interrupted t e)
    then have "(err, s) = scan_ble_finally ext (Some e) (deliver lw fn fa (delivered_until t ext) ?s1)"
      using assms None by (simp add: scan_ble_def Let_def)
    then show ?thesis
      using None d [of "delivered_until t ext"]
      by (intro exI [of _ "Some e"] exI [of _ "deliver lw fn fa (delivered_until t ext) ?s1"]) simp
  qed
qed

lemma scan_ble_trace:
  assumes "scan_ble lw duration fn fa cont csv_path ext w = Some (err, s)"
    and "CsvWriter_open (CsvWriter_init csv_path) w = Inr (c, w1)"
  shows "trace (env s) = trace w @ opened_part csv_path w @
           (case start_raises ext of None \<Rightarrow> [ScannerStarted] | Some e \<Rightarrow> []) @
           (case stop_raises ext of
              None \<Rightarrow> ScannerStopped # closed_part csv_path w
            | Some e \<Rightarrow> [])"
proof -
  from open_cases [OF assms(2)]
  have o: "trace w1 = trace w @ opened_part csv_path w"
    "(case cw_fh c of None \<Rightarrow> []
      | Some h \<Rightarrow> if h < length (handles w1) then [FileClosed h] else []) = closed_part csv_path w"
    by (auto simp: opened_part_def closed_part_def CsvWriter_init_def split: option.splits)
  from scan_ble_before_finally [OF assms] obtain pending s'
    where f: "(err, s) = scan_ble_finally ext pending s'" "csvw s' = c"
      "handles (env s') = handles w1"
      "trace (env s') =
         trace w1 @ (case start_raises ext of None \<Rightarrow> [ScannerStarted] | Some e \<Rightarrow> [])"
    by blast
  have s: "s = snd (scan_ble_finally ext pending s')"
    using f(1) by (metis snd_conv)
  have "trace (env s) = trace (env s') @
          (case stop_raises ext of
             None \<Rightarrow> ScannerStopped # closed_part csv_path w
           | Some e \<Rightarrow> [])"
    unfolding s finally_trace f(2,3) o(2) by (simp split: option.splits)
  then show ?thesis
    by (simp add: f(4) o(1))
qed

lemma scan_ble_sink_closed:
  assumes "scan_ble lw duration fn fa cont csv_path ext w = Some (err, s)"
    and "CsvWriter_open (CsvWriter_init csv_path) w = Inr (c, w1)"
    and "stop_raises ext = None"
  shows "cw_fh (csvw s) = None \<and> cw_writer (csvw s) = None"
proof -
  from scan_ble_before_finally [OF assms(1,2)] obtain pending s'
    where f: "(err, s) = scan_ble_finally ext pending s'" "csvw s' = c"
    by blast
  have s: "s = snd (scan_ble_finally ext pending s')"
    using f(1) by (metis snd_conv)
  have "cw_fh c = None \<longrightarrow> cw_writer c = None"
    using open_cases [OF assms(2)] by (auto simp: CsvWriter_init_def)
  then show ?thesis
    unfolding s using assms(3) f(2)
    by (auto simp: scan_ble_finally_def CsvWriter_close_def Let_def split: option.splits)
qed

lemma lifecycle_order:
  assumes "st = [] \<or> st = [ScannerStarted]"
  shows "closed_only_when_stopped False (opened_part p w @ st @
      (case sr of None \<Rightarrow> ScannerStopped # closed_part p w | Some e \<Rightarrow> []))"
  using assms by (auto simp: opened_part_def closed_part_def split: option.splits)

text \<open>
  The unbounded wait of \<^verbatim>\<open>scan_ble\<close> is selected by the duration alone: called with
  \<^verbatim>\<open>continuous=True\<close> and a duration that is not zero, the function still arms the
  timer. \<^verbatim>\<open>main\<close> never makes such a call, since it clears the duration when the flag is
  set.
\<close>

lemma scan_wait_timer_armed:
  "d \<noteq> 0 \<Longrightarrow> interrupt_at ext = None \<Longrightarrow> scan_wait (Some d) cont ext = TimedOut (max 0 d)"
  by (simp add: scan_wait_def asyncio_wait_for_def)

lemma finally_handles:
  "stop_raises ext = None \<Longrightarrow>
   handles (env (snd (scan_ble_finally ext pending s))) =
     (case cw_fh (csvw s) of
        None \<Rightarrow> handles (env s)
      | Some h \<Rightarrow>
          if h < length (handles (env s))
          then (handles (env s))[h := (fst (handles (env s) ! h), False)]
          else handles (env s))"
  by (simp add: scan_ble_finally_def CsvWriter_close_def file_close_def Let_def
      split: option.splits)

lemma scan_ble_handles:
  assumes "scan_ble lw duration fn fa cont csv_path ext w = Some (err, s)"
    and "CsvWriter_open (CsvWriter_init csv_path) w = Inr (c, w1)"
    and "stop_raises ext = None"
  shows "handles (env s) =
           (case csv_path of
              None \<Rightarrow> handles w
            | Some p \<Rightarrow> if p = [] then handles w else handles w @ [(p, False)])"
proof -
  from scan_ble_before_finally [OF assms(1,2)] obtain pending s'
    where f: "(err, s) = scan_ble_finally ext pending s'" "csvw s' = c"
      "handles (env s') = handles w1"
    by blast
  have s: "s = snd (scan_ble_finally ext pending s')"
    using f(1) by (metis snd_conv)
  show ?thesis
    unfolding s finally_handles [OF assms(3)] f(2,3)
    using open_cases [OF assms(2)]
    by (auto simp: CsvWriter_init_def)
qed

text \<open>
  C6. A run of \<^verbatim>\<open>scan_ble\<close> returns on every path except an unbounded wait that is
  never interrupted. Whenever it returns (timer expiry, stop request, or an exception
  from \<^verbatim>\<open>scanner.start()\<close>, the wait or \<^verbatim>\<open>scanner.stop()\<close>), no file object
  was closed while the discovery primitive was active. On every such path on which
  \<^verbatim>\<open>scanner.stop()\<close> completes, teardown stops the discovery primitive and then closes
  the sink: with a log target, the calls of the run are the open of the file, the start
  of the scanner if it started, the stop, and last the close of that file, which is left
  closed; with no log target they are the start and the stop, and no file is touched.
\<close>

theorem stop_before_close:
  "(scan_ble lw duration fn fa cont csv_path ext w = None \<longleftrightarrow>
      (\<forall>e. CsvWriter_open (CsvWriter_init csv_path) w \<noteq> Inl e) \<and> start_raises ext = None \<and>
      scan_wait duration cont ext = Forever) \<and>
   (scan_ble lw duration fn fa cont csv_path ext w = Some (err, s) \<longrightarrow>
     (\<exists>new. trace (env s) = trace w @ new \<and> closed_only_when_stopped False new) \<and>
     (stop_raises ext = None \<longrightarrow>
        (\<forall>p. csv_path = Some p \<and> p \<noteq> [] \<and> writable w p \<longrightarrow>
           trace (env s) =
             trace w @ [FileOpened (length (handles w)) p] @
             (case start_raises ext of None \<Rightarrow> [ScannerStarted] | Some e \<Rightarrow> []) @
             [ScannerStopped, FileClosed (length (handles w))] \<and>
           handles (env s) = handles w @ [(p, False)] \<and>
           cw_fh (csvw s) = None \<and> cw_writer (csvw s) = None) \<and>
        (csv_path = None \<or> csv_path = Some [] \<longrightarrow>
           trace (env s) =
             trace w @ (case start_raises ext of None \<Rightarrow> [ScannerStarted] | Some e \<Rightarrow> []) @
             [ScannerStopped] \<and>
           handles (env s) = handles w \<and>
           cw_fh (csvw s) = None \<and> cw_writer (csvw s) = None)))"
proof -
  have A: "scan_ble lw duration fn fa cont csv_path ext w = None \<longleftrightarrow>
      (\<forall>e. CsvWriter_open (CsvWriter_init csv_path) w \<noteq> Inl e) \<and> start_raises ext = None \<and>
      scan_wait duration cont ext = Forever"
    by (rule scan_ble_forever)
  have B: "\<exists>new. trace (env s) = trace w @ new \<and> closed_only_when_stopped False new"
    if run: "scan_ble lw duration fn fa cont csv_path ext w = Some (err, s)"
  proof (cases "CsvWriter_open (CsvWriter_init csv_path) w")
    case (Inl e)
    then have "trace (env s) = trace w @ []"
      using run by (auto simp: scan_ble_def)
    then show ?thesis
      by (intro exI [of _ "[]"]) simp
  next
    case (Inr cw)
    then have op: "CsvWriter_open (CsvWriter_init csv_path) w = Inr (fst cw, snd cw)"
      by simp
    let ?st = "case start_raises ext of None \<Rightarrow> [ScannerStarted] | Some e \<Rightarrow> []"
    let ?new = "opened_part csv_path w @ ?st @
           (case stop_raises ext of
              None \<Rightarrow> ScannerStopped # closed_part csv_path w
            | Some e \<Rightarrow> [])"
    have t: "trace (env s) = trace w @ ?new"
      using scan_ble_trace [OF run op] .
    have st: "?st = [] \<or> ?st = [ScannerStarted]"
      by (simp split: option.splits)
    have o: "closed_only_when_stopped False ?new"
      using lifecycle_order [OF st] .
    show ?thesis
      using t o by blast
  qed
  have C: "trace (env s) =
             trace w @ [FileOpened (length (handles w)) p] @
             (case start_raises ext of None \<Rightarrow> [ScannerStarted] | Some e \<Rightarrow> []) @
             [ScannerStopped, FileClosed (length (handles w))] \<and>
           handles (env s) = handles w @ [(p, False)] \<and>
           cw_fh (csvw s) = None \<and> cw_writer (csvw s) = None"
    if run: "scan_ble lw duration fn fa cont csv_path ext w = Some (err, s)"
      and stop: "stop_raises ext = None"
      and p: "csv_path = Some p \<and> p \<noteq> [] \<and> writable w p" for p
  proof -
    obtain c w1 where op: "CsvWriter_open (CsvWriter_init csv_path) w = Inr (c, w1)"
      using p open_configured [of p w] by simp
    have t: "trace (env s) =
             trace w @ [FileOpened (length (handles w)) p] @
             (case start_raises ext of None \<Rightarrow> [ScannerStarted] | Some e \<Rightarrow> []) @
             [ScannerStopped, FileClosed (length (handles w))]"
      using scan_ble_trace [OF run op] stop p by (simp add: opened_part_def closed_part_def)
    have h: "handles (env s) = handles w @ [(p, False)]"
      using scan_ble_handles [OF run op stop] p by simp
    show ?thesis
      using t h scan_ble_sink_closed [OF run op stop] by simp
  qed
  have D: "trace (env s) =
             trace w @ (case start_raises ext of None \<Rightarrow> [ScannerStarted] | Some e \<Rightarrow> []) @
             [ScannerStopped] \<and>
           handles (env s) = handles w \<and>
           cw_fh (csvw s) = None \<and> cw_writer (csvw s) = None"
    if run: "scan_ble lw duration fn fa cont csv_path ext w = Some (err, s)"
      and stop: "stop_raises ext = None"
      and p: "csv_path = None \<or> csv_path = Some []"
  proof -
    have op: "CsvWriter_open (CsvWriter_init csv_path) w = Inr (CsvWriter_init csv_path, w)"
      using open_unconfigured [OF p] .
    have t: "trace (env s) =
             trace w @ (case start_raises ext of None \<Rightarrow> [ScannerStarted] | Some e \<Rightarrow> []) @
             [ScannerStopped]"
      using scan_ble_trace [OF run op] stop p by (auto simp: opened_part_def closed_part_def)
    have h: "handles (env s) = handles w"
      using scan_ble_handles [OF run op stop] p by auto
    show ?thesis
      using t h scan_ble_sink_closed [OF run op stop] by simp
  qed
  show ?thesis
    using A B C D by blast
qed

theorem stop_before_close_witness:
  "\<exists>err s. scan_ble ascii_lower (Some 5) None None False (Some ''ble_log.csv'')
              (sample_external None) quiet_world = Some (err, s) \<and>
     trace (env s) =
       [FileOpened 0 ''ble_log.csv'', ScannerStarted, ScannerStopped, FileClosed 0] \<and>
     closed_only_when_stopped False (trace (env s)) \<and>
     handles (env s) = [(''ble_log.csv'', False)] \<and> cw_fh (csvw s) = None"
proof -
  have wait: "scan_wait (Some 5) False (sample_external None) = TimedOut 5"
    by (simp add: scan_wait_def asyncio_wait_for_def sample_external_def)
  have st: "stop_raises (sample_external None) = None" "start_raises (sample_external None) = None"
    "trace quiet_world = []" "handles quiet_world = []" "writable quiet_world ''ble_log.csv''"
    by (simp_all add: sample_external_def quiet_world_def)
  note sbc = stop_before_close [where lw = ascii_lower and duration = "Some 5" and fn = None
      and fa = None and cont = False and csv_path = "Some ''ble_log.csv''"
      and ext = "sample_external None" and w = quiet_world]
  have "scan_ble ascii_lower (Some 5) None None False (Some ''ble_log.csv'') (sample_external None)
          quiet_world \<noteq> None"
    using sbc wait by simp
  then obtain err s where
    run: "scan_ble ascii_lower (Some 5) None None False (Some ''ble_log.csv'')
            (sample_external None) quiet_world = Some (err, s)"
    by auto
  have "trace (env s) =
       [FileOpened 0 ''ble_log.csv'', ScannerStarted, ScannerStopped, FileClosed 0] \<and>
     handles (env s) = [(''ble_log.csv'', False)] \<and> cw_fh (csvw s) = None"
    using sbc [of err s] run st by simp
  then show ?thesis
    using run by (intro exI [of _ err] exI [of _ s]) simp
qed

text \<open>
  The path on which the sink is not closed: \<^verbatim>\<open>scanner.stop()\<close> raises in the
  \<^verbatim>\<open>finally\<close> block, so \<^verbatim>\<open>csvw.close()\<close> is not reached. The run below opened the log
  file and started the scanner; it ends with the exception of the stop, with no close in
  the trace and the file object still open and still held by the sink.
\<close>

theorem stop_raises_sink_left_open:
  "map_option fst
     (scan_ble ascii_lower (Some 5) None None False (Some ''ble_log.csv'') failing_stop_external
        quiet_world) = Some (Some BleakError) \<and>
   map_option (trace \<circ> env \<circ> snd)
     (scan_ble ascii_lower (Some 5) None None False (Some ''ble_log.csv'') failing_stop_external
        quiet_world) = Some [FileOpened 0 ''ble_log.csv'', ScannerStarted] \<and>
   map_option (handles \<circ> env \<circ> snd)
     (scan_ble ascii_lower (Some 5) None None False (Some ''ble_log.csv'') failing_stop_external
        quiet_world) = Some [(''ble_log.csv'', True)] \<and>
   map_option (cw_fh \<circ> csvw \<circ> snd)
     (scan_ble ascii_lower (Some 5) None None False (Some ''ble_log.csv'') failing_stop_external
        quiet_world) = Some (Some 0)"
proof -
  have op: "CsvWriter_open (CsvWriter_init (Some ''ble_log.csv'')) quiet_world =
     Inr (\<lparr>cw_path = Some ''ble_log.csv'', cw_fh = Some 0, cw_writer = Some 0\<rparr>,
          quiet_world\<lparr>files := (files quiet_world)(''ble_log.csv'' \<mapsto> [header_row]),
            handles := [(''ble_log.csv'', True)],
            trace := [FileOpened 0 ''ble_log.csv'']\<rparr>)"
    using open_configured [of "''ble_log.csv''" quiet_world]
    by (simp add: quiet_world_def file_rows_def)
  have wait: "scan_wait (Some 5) False failing_stop_external = TimedOut 5"
    by (simp add: scan_wait_def asyncio_wait_for_def failing_stop_external_def)
  have ext: "start_raises failing_stop_external = None"
    "stop_raises failing_stop_external = Some BleakError"
    "delivered_until 5 failing_stop_external = []"
    by (simp_all add: failing_stop_external_def delivered_until_def)
  show ?thesis
    by (simp add: scan_ble_def op wait ext Let_def scan_ble_finally_def)
qed

text \<open>
  C1. With the continuous flag set, whatever the duration argument, \<^verbatim>\<open>main\<close> passes no
  duration on. With no duration passed on (the continuous flag, or a duration of zero)
  the wait of \<^verbatim>\<open>scan_ble\<close> is the plain wait on the stop event: it is never ended by a
  timer, an interrupt arriving at time \<open>T\<close> ends it at \<open>T\<close> and the run then returns, and
  without an interrupt it never ends, so that a run whose sink opened and whose scanner
  started never returns.
\<close>

theorem continuous_unbounded:
  "(arg_continuous a \<longrightarrow> main_duration a = None) \<and>
   (main_duration a = None \<longrightarrow>
      scan_wait (main_duration a) (arg_continuous a) ext = stop_event_wait ext \<and>
      \<not> by_timer (scan_wait (main_duration a) (arg_continuous a) ext) \<and>
      (\<forall>T. interrupt_at ext = Some T \<longrightarrow>
           ends_at (scan_wait (main_duration a) (arg_continuous a) ext) = Some T \<and>
           main lw a ext w \<noteq> None) \<and>
      (interrupt_at ext = None \<longrightarrow>
           ends_at (scan_wait (main_duration a) (arg_continuous a) ext) = None) \<and>
      (interrupt_at ext = None \<and> start_raises ext = None \<and>
       (\<forall>e. CsvWriter_open (CsvWriter_init (arg_csv a)) w \<noteq> Inl e) \<longrightarrow> main lw a ext w = None))"
proof -
  have A: "arg_continuous a \<longrightarrow> main_duration a = None"
    by (simp add: main_duration_def)
  have B: "scan_wait (main_duration a) (arg_continuous a) ext = stop_event_wait ext \<and>
      \<not> by_timer (scan_wait (main_duration a) (arg_continuous a) ext) \<and>
      (\<forall>T. interrupt_at ext = Some T \<longrightarrow>
           ends_at (scan_wait (main_duration a) (arg_continuous a) ext) = Some T \<and>
           main lw a ext w \<noteq> None) \<and>
      (interrupt_at ext = None \<longrightarrow>
           ends_at (scan_wait (main_duration a) (arg_continuous a) ext) = None) \<and>
      (interrupt_at ext = None \<and> start_raises ext = None \<and>
       (\<forall>e. CsvWriter_open (CsvWriter_init (arg_csv a)) w \<noteq> Inl e) \<longrightarrow> main lw a ext w = None)"
    if d: "main_duration a = None"
  proof -
    have w: "scan_wait (main_duration a) (arg_continuous a) ext = stop_event_wait ext"
      using d by (simp add: scan_wait_def asyncio_wait_for_def)
    have m: "main lw a ext w = None \<longleftrightarrow>
       (\<forall>e. CsvWriter_open (CsvWriter_init (arg_csv a)) w \<noteq> Inl e) \<and> start_raises ext = None \<and>
       stop_event_wait ext = Forever"
    proof -
      have "main lw a ext w = None \<longleftrightarrow>
            scan_ble lw (main_duration a) (arg_filter_name a) (arg_filter_address a)
              (arg_continuous a) (arg_csv a) ext w = None"
        by (simp add: main_def split: option.splits)
      then show ?thesis
        unfolding scan_ble_forever w .
    qed
    have s1: "\<not> by_timer (stop_event_wait ext)"
      by (simp add: by_timer_def stop_event_wait_def split: option.splits)
    have s2: "interrupt_at ext = Some T \<Longrightarrow>
        ends_at (stop_event_wait ext) = Some T \<and> stop_event_wait ext \<noteq> Forever" for T
      by (simp add: ends_at_def stop_event_wait_def)
    have s3: "interrupt_at ext = None \<Longrightarrow>
        ends_at (stop_event_wait ext) = None \<and> stop_event_wait ext = Forever"
      by (simp add: ends_at_def stop_event_wait_def)
    show ?thesis
      unfolding w m using s1 s2 s3 by blast
  qed
  show ?thesis using A B by blast
qed

theorem continuous_unbounded_witness:
  "main_duration (sample_args 30 True) = None \<and>
   \<not> by_timer (scan_wait (main_duration (sample_args 30 True)) True (sample_external (Some 12))) \<and>
   ends_at (scan_wait (main_duration (sample_args 30 True)) True (sample_external (Some 12))) =
     Some 12 \<and>
   main ascii_lower (sample_args 30 True) (sample_external (Some 12)) quiet_world \<noteq> None \<and>
   main ascii_lower (sample_args 30 True) (sample_external None) quiet_world = None"
proof -
  have c: "arg_continuous (sample_args 30 True) = True" "arg_csv (sample_args 30 True) = None"
    by (simp_all add: sample_args_def)
  have i: "interrupt_at (sample_external (Some 12)) = Some 12"
    "interrupt_at (sample_external None) = None" "start_raises (sample_external None) = None"
    by (simp_all add: sample_external_def)
  have o: "\<forall>e. CsvWriter_open (CsvWriter_init None) quiet_world \<noteq> Inl e"
    by (simp add: CsvWriter_open_def CsvWriter_init_def)
  note t1 = continuous_unbounded [where lw = ascii_lower and a = "sample_args 30 True"
        and ext = "sample_external (Some 12)" and w = quiet_world, unfolded c]
  note t2 = continuous_unbounded [where lw = ascii_lower and a = "sample_args 30 True"
        and ext = "sample_external None" and w = quiet_world, unfolded c]
  have d: "main_duration (sample_args 30 True) = None"
    using t1 by blast
  have 1: "\<not> by_timer (scan_wait (main_duration (sample_args 30 True)) True
                (sample_external (Some 12)))"
    using t1 d by blast
  have 2: "ends_at (scan_wait (main_duration (sample_args 30 True)) True
              (sample_external (Some 12))) = Some 12 \<and>
           main ascii_lower (sample_args 30 True) (sample_external (Some 12)) quiet_world \<noteq> None"
    using t1 d i(1) by blast
  have 3: "main ascii_lower (sample_args 30 True) (sample_external None) quiet_world = None"
    using t2 d i(2,3) o by blast
  show ?thesis
    using d 1 2 3 by blast
qed

end
